theory Spec2Isabelle
  imports Main
begin

section \<open>Data model\<close>

text \<open>
  The board is the array of rows of \<^verbatim>\<open>game.js\<close>: \<^verbatim>\<open>board[row][col]\<close>, each cell a
  number, 0 for an empty cell. Rows are separate arrays (\<^verbatim>\<open>createEmptyBoard\<close> builds
  each one with its own \<^verbatim>\<open>Array(width).fill(0)\<close>), so a list of lists carries all
  there is to a board. Numbers of the game (cells, coordinates, score, level, lines and
  times in milliseconds) are taken as integers.
\<close>

type_synonym board = "int list list"

text \<open>The only failure of the engine: reading \<^verbatim>\<open>.length\<close> of \<^verbatim>\<open>undefined\<close>.\<close>

datatype error = TypeError

text \<open>
  A tetromino object \<^verbatim>\<open>{type, shape, color, x, y, rotation}\<close>; the fields carry the
  prefix \<open>t_\<close> so that \<open>x\<close> and \<open>y\<close> stay free for variables.
\<close>

record tetromino =
  t_type :: string
  t_shape :: "int list list"
  t_color :: string
  t_x :: int
  t_y :: int
  t_rotation :: nat

text \<open>
  The fields that \<^verbatim>\<open>initializeGameState\<close> sets on a \<^verbatim>\<open>Game\<close>. The renderer is an
  external object the engine only calls into; it is not part of the state.
  \<^verbatim>\<open>currentTetromino\<close> is \<^verbatim>\<open>null\<close> (\<open>None\<close>) or a tetromino.
\<close>

record game =
  score :: int
  level :: int
  lines :: int
  gameOver :: bool
  paused :: bool
  board :: board
  currentTetromino :: "tetromino option"
  lastDropTime :: int
  dropInterval :: int

section \<open>Board functions of \<^verbatim>\<open>game.js\<close>\<close>

definition BOARD_WIDTH :: nat where
  "BOARD_WIDTH = 10"

definition BOARD_HEIGHT :: nat where
  "BOARD_HEIGHT = 20"

definition createEmptyBoard :: "nat \<Rightarrow> nat \<Rightarrow> board" where
  "createEmptyBoard width height = replicate height (replicate width 0)"

subsection \<open>checkCollision\<close>

text \<open>
  \<^verbatim>\<open>board[newY][newX]\<close> for a row index inside the board: the cell, or \<^verbatim>\<open>undefined\<close>
  (\<open>None\<close>) when the row is shorter than \<^verbatim>\<open>newX\<close>.
\<close>

definition boardCell :: "board \<Rightarrow> int \<Rightarrow> int \<Rightarrow> int option" where
  "boardCell b newY newX =
     (let r = b ! nat newY in if nat newX < length r then Some (r ! nat newX) else None)"

text \<open>
  The two tests made for one filled cell of the shape. \<^verbatim>\<open>||\<close> and \<^verbatim>\<open>&&\<close> evaluate from
  the left: \<^verbatim>\<open>board[0].length\<close> is read only when \<^verbatim>\<open>newX >= 0\<close>, and throws a
  TypeError on a board with no row; \<^verbatim>\<open>undefined !== 0\<close> is true.
\<close>

definition cellCollides :: "board \<Rightarrow> int \<Rightarrow> int \<Rightarrow> error + bool" where
  "cellCollides b newX newY =
     (if newX < 0 then Inr True
      else (case b of
              [] \<Rightarrow> Inl TypeError
            | row0 # _ \<Rightarrow>
                if newX \<ge> int (length row0) \<or> newY \<ge> int (length b) then Inr True
                else if newY \<ge> 0 \<and> boardCell b newY newX \<noteq> Some 0 then Inr True
                else Inr False))"

text \<open>
  The inner loop over \<^verbatim>\<open>col\<close>, from column \<open>col\<close> on, over the cells of the shape's row
  that are left; \<open>Inr False\<close> is the loop running to its end.
\<close>

fun checkCols :: "board \<Rightarrow> int list \<Rightarrow> nat \<Rightarrow> nat \<Rightarrow> int \<Rightarrow> int \<Rightarrow> int \<Rightarrow> int \<Rightarrow> error + bool" where
  "checkCols b [] row col x y offsetX offsetY = Inr False"
| "checkCols b (c # cs) row col x y offsetX offsetY =
     (if c \<noteq> 0 then
        (case cellCollides b (x + int col + offsetX) (y + int row + offsetY) of
           Inr False \<Rightarrow> checkCols b cs row (Suc col) x y offsetX offsetY
         | r \<Rightarrow> r)
      else checkCols b cs row (Suc col) x y offsetX offsetY)"

text \<open>The outer loop over \<^verbatim>\<open>row\<close>, from row \<open>row\<close> on.\<close>

fun checkRows :: "board \<Rightarrow> int list list \<Rightarrow> nat \<Rightarrow> int \<Rightarrow> int \<Rightarrow> int \<Rightarrow> int \<Rightarrow> error + bool" where
  "checkRows b [] row x y offsetX offsetY = Inr False"
| "checkRows b (r # rs) row x y offsetX offsetY =
     (case checkCols b r row 0 x y offsetX offsetY of
        Inr False \<Rightarrow> checkRows b rs (Suc row) x y offsetX offsetY
      | res \<Rightarrow> res)"

text \<open>
  The shape argument is \<open>None\<close> for \<^verbatim>\<open>null\<close> and every other value that is not an
  array.
\<close>

definition checkCollision ::
  "board \<Rightarrow> int list list option \<Rightarrow> int \<Rightarrow> int \<Rightarrow> int \<Rightarrow> int \<Rightarrow> error + bool" where
  "checkCollision b shape x y offsetX offsetY =
     (case shape of
        None \<Rightarrow> Inr False
      | Some s \<Rightarrow> if length s = 0 then Inr False else checkRows b s 0 x y offsetX offsetY)"

subsection \<open>checkFullLines, clearLines, dropLinesDown\<close>

definition checkFullLines :: "board \<Rightarrow> nat list" where
  "checkFullLines b = filter (\<lambda>row. list_all (\<lambda>c. c \<noteq> 0) (b ! row)) [0..<length b]"

text \<open>The loop \<^verbatim>\<open>for (col ...) board[lineIndex][col] = 0\<close> on one row.\<close>

definition clearRow :: "int list \<Rightarrow> int list" where
  "clearRow r = fold (\<lambda>col r'. r'[col := 0]) [0..<length r] r"

text \<open>
  Row indices are array indices, natural numbers. \<^verbatim>\<open>board[lineIndex]\<close> is
  \<^verbatim>\<open>undefined\<close> for an index that is not below the height, and reading its length
  throws; the board is changed in place, so the rows cleared before the throw stay
  cleared. The result is the board and the error, if any.
\<close>

fun clearLines :: "board \<Rightarrow> nat list \<Rightarrow> board \<times> error option" where
  "clearLines b [] = (b, None)"
| "clearLines b (lineIndex # rest) =
     (if lineIndex < length b
      then clearLines (b[lineIndex := clearRow (b ! lineIndex)]) rest
      else (b, Some TypeError))"

text \<open>
  The loop \<^verbatim>\<open>for (col ...) board[writeRow][col] = board[readRow][col]\<close>, with the row
  read as \<open>src\<close> and the row written as \<open>dst\<close>. On a board whose rows have one length
  every write is inside \<open>dst\<close>. A write past the end of a shorter row, which JavaScript
  turns into an extension of the array, is not modelled (the list stays as it is); what
  is proved of this loop is proved for rows of one length.
\<close>

definition copyRow :: "int list \<Rightarrow> int list \<Rightarrow> int list" where
  "copyRow src dst = fold (\<lambda>col d. d[col := src ! col]) [0..<length src] dst"

text \<open>
  One turn of the loop over \<^verbatim>\<open>readRow\<close>; the loop's state is the board and
  \<^verbatim>\<open>writeRow\<close>, which reaches -1 when no row is cleared.
\<close>

definition dropStep :: "nat list \<Rightarrow> nat \<Rightarrow> board \<times> int \<Rightarrow> board \<times> int" where
  "dropStep clearedLineIndices readRow st =
     (case st of (b, writeRow) \<Rightarrow>
        if readRow \<notin> set clearedLineIndices
        then ((if writeRow \<noteq> int readRow
               then b[nat writeRow := copyRow (b ! readRow) (b ! nat writeRow)]
               else b),
              writeRow - 1)
        else (b, writeRow))"

text \<open>
  \<^verbatim>\<open>readRow\<close> runs from the last row up to row 0, then the rows 0 to \<^verbatim>\<open>writeRow\<close> are
  filled with zeros.
\<close>

definition dropLinesDown :: "board \<Rightarrow> nat list \<Rightarrow> board" where
  "dropLinesDown b clearedLineIndices =
     (if length clearedLineIndices = 0 then b
      else (case fold (dropStep clearedLineIndices) (rev [0..<length b])
                   (b, int (length b) - 1) of
              (b', writeRow) \<Rightarrow>
                fold (\<lambda>row bd. bd[row := clearRow (bd ! row)]) [0..<nat (writeRow + 1)] b'))"

subsection \<open>calculateScore\<close>

text \<open>
  \<^verbatim>\<open>baseScores\<close> is an object with the keys 0 to 4; the guard before the lookup lets
  no other key through.
\<close>

definition baseScores :: "int \<rightharpoonup> int" where
  "baseScores = [0 \<mapsto> 0, 1 \<mapsto> 100, 2 \<mapsto> 300, 3 \<mapsto> 500, 4 \<mapsto> 800]"

definition calculateScore :: "int \<Rightarrow> int \<Rightarrow> int" where
  "calculateScore linesCleared lvl =
     (if lvl \<le> 0 \<or> linesCleared < 0 \<or> linesCleared > 4 then 0
      else the (baseScores linesCleared) * lvl)"

section \<open>The catalog of \<^verbatim>\<open>tetromino.js\<close>\<close>

record catalogEntry =
  color :: string
  shapes :: "int list list list"

text \<open>
  The object \<^verbatim>\<open>TETROMINOS\<close>: for each type its color and its four rotation states. A
  lookup with a string that is not one of the seven keys finds nothing; the names that
  every JavaScript object inherits (such as \<^verbatim>\<open>constructor\<close>) are no strings of this
  model, and the engine looks up the seven types only.
\<close>

definition TETROMINOS :: "string \<rightharpoonup> catalogEntry" where
  "TETROMINOS = map_of
     [(''I'', \<lparr>color = ''cyan'', shapes =
         [[[0,0,0,0], [1,1,1,1], [0,0,0,0], [0,0,0,0]],
          [[0,0,1,0], [0,0,1,0], [0,0,1,0], [0,0,1,0]],
          [[0,0,0,0], [0,0,0,0], [1,1,1,1], [0,0,0,0]],
          [[0,1,0,0], [0,1,0,0], [0,1,0,0], [0,1,0,0]]]\<rparr>),
      (''O'', \<lparr>color = ''yellow'', shapes =
         [[[1,1], [1,1]],
          [[1,1], [1,1]],
          [[1,1], [1,1]],
          [[1,1], [1,1]]]\<rparr>),
      (''T'', \<lparr>color = ''purple'', shapes =
         [[[0,1,0], [1,1,1], [0,0,0]],
          [[0,1,0], [0,1,1], [0,1,0]],
          [[0,0,0], [1,1,1], [0,1,0]],
          [[0,1,0], [1,1,0], [0,1,0]]]\<rparr>),
      (''S'', \<lparr>color = ''green'', shapes =
         [[[0,1,1], [1,1,0], [0,0,0]],
          [[0,1,0], [0,1,1], [0,0,1]],
          [[0,0,0], [0,1,1], [1,1,0]],
          [[1,0,0], [1,1,0], [0,1,0]]]\<rparr>),
      (''Z'', \<lparr>color = ''red'', shapes =
         [[[1,1,0], [0,1,1], [0,0,0]],
          [[0,0,1], [0,1,1], [0,1,0]],
          [[0,0,0], [1,1,0], [0,1,1]],
          [[0,1,0], [1,1,0], [1,0,0]]]\<rparr>),
      (''J'', \<lparr>color = ''blue'', shapes =
         [[[1,0,0], [1,1,1], [0,0,0]],
          [[0,1,1], [0,1,0], [0,1,0]],
          [[0,0,0], [1,1,1], [0,0,1]],
          [[0,1,0], [0,1,0], [1,1,0]]]\<rparr>),
      (''L'', \<lparr>color = ''orange'', shapes =
         [[[0,0,1], [1,1,1], [0,0,0]],
          [[0,1,0], [0,1,0], [0,1,1]],
          [[0,0,0], [1,1,1], [1,0,0]],
          [[1,1,0], [0,1,0], [0,1,0]]]\<rparr>)]"

text \<open>
  The argument is \<open>None\<close> for \<^verbatim>\<open>undefined\<close>. A type the catalog does not have is replaced
  by \<^verbatim>\<open>'I'\<close>, so the lookups that follow find an entry.
\<close>

definition createTetromino :: "string option \<Rightarrow> tetromino" where
  "createTetromino ty =
     (let ty' = (case ty of
                   None \<Rightarrow> ''I''
                 | Some t \<Rightarrow> if TETROMINOS t = None then ''I'' else t);
          entry = the (TETROMINOS ty')
      in \<lparr> t_type = ty', t_shape = shapes entry ! 0, t_color = color entry,
           t_x = 4, t_y = 0, t_rotation = 0 \<rparr>)"

section \<open>The \<^verbatim>\<open>Game\<close> class of \<^verbatim>\<open>main.js\<close>\<close>

definition initializeGameState :: game where
  "initializeGameState =
     \<lparr> score = 0, level = 1, lines = 0, gameOver = False, paused = False,
       board = createEmptyBoard BOARD_WIDTH BOARD_HEIGHT, currentTetromino = None,
       lastDropTime = 0, dropInterval = 1000 \<rparr>"

definition setGameOver :: "bool \<Rightarrow> game \<Rightarrow> game" where
  "setGameOver isGameOver g = g\<lparr>gameOver := isGameOver\<rparr>"

text \<open>\<^verbatim>\<open>togglePause\<close> returns the new value of \<^verbatim>\<open>paused\<close>.\<close>

definition togglePause :: "game \<Rightarrow> game \<times> bool" where
  "togglePause g = (let g' = g\<lparr>paused := \<not> paused g\<rparr> in (g', paused g'))"

definition reset :: "game \<Rightarrow> game" where
  "reset g = initializeGameState"

text \<open>
  \<^verbatim>\<open>getDropInterval\<close> reads \<^verbatim>\<open>this.level\<close>. The tests follow the source in their
  order; the branch for levels at most 4 comes after the test \<^verbatim>\<open>level <= 5\<close>.
\<close>

definition getDropInterval :: "game \<Rightarrow> int" where
  "getDropInterval g =
     (if level g \<le> 1 then 1000
      else if level g = 2 then 800
      else if level g \<le> 5 then 500
      else if level g \<ge> 10 then 100
      else if level g \<le> 4 then 800 - ((level g - 2) * 100)
      else 500 - ((level g - 5) * 80))"

definition updateDropInterval :: "game \<Rightarrow> game" where
  "updateDropInterval g = g\<lparr>dropInterval := getDropInterval g\<rparr>"

definition shouldDropTetromino :: "int \<Rightarrow> game \<Rightarrow> game \<times> bool" where
  "shouldDropTetromino currentTime g =
     (if paused g \<or> gameOver g then (g, False)
      else if currentTime - lastDropTime g < dropInterval g then (g, False)
      else (g\<lparr>lastDropTime := currentTime\<rparr>, True))"

text \<open>
  An argument of \<^verbatim>\<open>addScore\<close>: a number (an integer here; \<^verbatim>\<open>NaN\<close> and fractions are
  outside the model), or a value whose \<^verbatim>\<open>typeof\<close> is not \<^verbatim>\<open>'number'\<close>.
\<close>

datatype jsval = Num int | NotNum

definition addScore :: "jsval \<Rightarrow> jsval \<Rightarrow> game \<Rightarrow> game" where
  "addScore points linesCleared g =
     (case points of
        NotNum \<Rightarrow> g
      | Num p \<Rightarrow>
          if p < 0 then g
          else (case linesCleared of
                  NotNum \<Rightarrow> g
                | Num n \<Rightarrow>
                    if n < 0 then g
                    else (let g1 = g\<lparr>score := score g + p\<rparr>;
                              g2 = g1\<lparr>lines := lines g1 + n\<rparr>;
                              newLevel = lines g2 div 10 + 1
                          in if newLevel > level g2
                             then updateDropInterval (g2\<lparr>level := newLevel\<rparr>)
                             else g2)))"

text \<open>
  A method that can throw returns the state it leaves behind and either the error or
  its return value: the state is changed in place, and what was changed before a throw
  stays changed.
\<close>

type_synonym 'a outcome = "game \<times> (error + 'a)"

definition types :: "string list" where
  "types = [''I'', ''O'', ''T'', ''S'', ''Z'', ''J'', ''L'']"

text \<open>
  \<open>rnd\<close> is the index \<^verbatim>\<open>Math.floor(Math.random() * types.length)\<close>, the only use the
  engine makes of the random source. \<^verbatim>\<open>Math.random()\<close> is below 1, so the index is below
  7; an index outside an array reads \<^verbatim>\<open>undefined\<close>.
\<close>

definition spawnNewTetromino :: "nat \<Rightarrow> game \<Rightarrow> bool outcome" where
  "spawnNewTetromino rnd g =
     (let randomType = (if rnd < length types then Some (types ! rnd) else None);
          newTetromino = createTetromino randomType
      in case checkCollision (board g) (Some (t_shape newTetromino))
                (t_x newTetromino) (t_y newTetromino) 0 0 of
           Inl e \<Rightarrow> (g, Inl e)
         | Inr True \<Rightarrow> (setGameOver True g, Inr False)
         | Inr False \<Rightarrow> (g\<lparr>currentTetromino := Some newTetromino\<rparr>, Inr True))"

definition colorMap :: "string \<rightharpoonup> int" where
  "colorMap = map_of [(''I'', 1), (''O'', 2), (''T'', 3), (''S'', 4), (''Z'', 5),
                      (''J'', 6), (''L'', 7)]"

text \<open>
  \<^verbatim>\<open>colorMap[type] || 1\<close>: 1 for a missing key (no entry of the map is 0). As for
  \<^verbatim>\<open>TETROMINOS\<close>, inherited property names are outside the model; the pieces that
  \<open>createTetromino\<close> builds have one of the seven types.
\<close>

definition getTetrominoColorValue :: "string \<Rightarrow> int" where
  "getTetrominoColorValue ty =
     (case colorMap ty of None \<Rightarrow> 1 | Some v \<Rightarrow> if v = 0 then 1 else v)"

text \<open>
  The write of one cell in \<^verbatim>\<open>fixTetrominoToBoard\<close>, behind its bounds test.
  \<^verbatim>\<open>board[0].length\<close> is read only for a row index inside the board. The test
  compares \<^verbatim>\<open>boardX\<close> with the length of row 0; on a board whose rows have one length
  the write is inside the row written (a write past the end of a shorter row would
  extend that array, which the list update does not model).
\<close>

definition fixCell :: "board \<Rightarrow> int \<Rightarrow> int \<Rightarrow> int \<Rightarrow> board" where
  "fixCell b boardX boardY colorValue =
     (if boardY \<ge> 0 \<and> boardY < int (length b) \<and> boardX \<ge> 0 \<and> boardX < int (length (b ! 0))
      then b[nat boardY := (b ! nat boardY)[nat boardX := colorValue]]
      else b)"

fun fixCols :: "board \<Rightarrow> int list \<Rightarrow> nat \<Rightarrow> nat \<Rightarrow> int \<Rightarrow> int \<Rightarrow> string \<Rightarrow> board" where
  "fixCols b [] row col x y ty = b"
| "fixCols b (c # cs) row col x y ty =
     fixCols (if c \<noteq> 0
              then fixCell b (x + int col) (y + int row) (getTetrominoColorValue ty)
              else b)
       cs row (Suc col) x y ty"

fun fixRows :: "board \<Rightarrow> int list list \<Rightarrow> nat \<Rightarrow> int \<Rightarrow> int \<Rightarrow> string \<Rightarrow> board" where
  "fixRows b [] row x y ty = b"
| "fixRows b (r # rs) row x y ty = fixRows (fixCols b r row 0 x y ty) rs (Suc row) x y ty"

definition processLineClearing :: "game \<Rightarrow> unit outcome" where
  "processLineClearing g =
     (let fullLines = checkFullLines (board g)
      in if length fullLines > 0
         then (case clearLines (board g) fullLines of
                 (b1, Some e) \<Rightarrow> (g\<lparr>board := b1\<rparr>, Inl e)
               | (b1, None) \<Rightarrow>
                   (let g1 = g\<lparr>board := dropLinesDown b1 fullLines\<rparr>;
                        points = calculateScore (int (length fullLines)) (level g1)
                    in (addScore (Num points) (Num (int (length fullLines))) g1, Inr ())))
         else (g, Inr ()))"

definition fixTetrominoToBoard :: "nat \<Rightarrow> game \<Rightarrow> unit outcome" where
  "fixTetrominoToBoard rnd g =
     (case currentTetromino g of
        None \<Rightarrow> (g, Inr ())
      | Some t \<Rightarrow>
          (let g1 = g\<lparr>board := fixRows (board g) (t_shape t) 0 (t_x t) (t_y t) (t_type t)\<rparr>
           in case processLineClearing g1 of
                (g2, Inl e) \<Rightarrow> (g2, Inl e)
              | (g2, Inr _) \<Rightarrow>
                  (case spawnNewTetromino rnd (g2\<lparr>currentTetromino := None\<rparr>) of
                     (g3, Inl e) \<Rightarrow> (g3, Inl e)
                   | (g3, Inr _) \<Rightarrow> (g3, Inr ()))))"

definition dropCurrentTetromino :: "nat \<Rightarrow> game \<Rightarrow> unit outcome" where
  "dropCurrentTetromino rnd g =
     (case currentTetromino g of
        None \<Rightarrow> (g, Inr ())
      | Some t \<Rightarrow>
          (case checkCollision (board g) (Some (t_shape t)) (t_x t) (t_y t + 1) 0 0 of
             Inl e \<Rightarrow> (g, Inl e)
           | Inr False \<Rightarrow> (g\<lparr>currentTetromino := Some (t\<lparr>t_y := t_y t + 1\<rparr>)\<rparr>, Inr ())
           | Inr True \<Rightarrow> fixTetrominoToBoard rnd g))"

definition validateAndFixGameState :: "game \<Rightarrow> game" where
  "validateAndFixGameState g =
     (let g1 = (if level g < 1 then g\<lparr>level := 1\<rparr> else g);
          g2 = (if score g1 < 0 then g1\<lparr>score := 0\<rparr> else g1)
      in if lines g2 < 0 then g2\<lparr>lines := 0\<rparr> else g2)"

text \<open>The \<^verbatim>\<open>catch\<close> of \<^verbatim>\<open>update\<close>: an error pauses the game.\<close>

definition catchError :: "'a outcome \<Rightarrow> game" where
  "catchError r = (case r of (g, Inl e) \<Rightarrow> g\<lparr>paused := True\<rparr> | (g, Inr _) \<Rightarrow> g)"

text \<open>
  One call of \<^verbatim>\<open>update\<close> draws at most one random number; \<open>rnd\<close> is the index it
  gives.
\<close>

definition update :: "int \<Rightarrow> nat \<Rightarrow> game \<Rightarrow> game" where
  "update currentTime rnd g =
     (let g1 = validateAndFixGameState g
      in if paused g1 \<or> gameOver g1 then g1
         else (case currentTetromino g1 of
                 None \<Rightarrow> catchError (spawnNewTetromino rnd g1)
               | Some _ \<Rightarrow>
                   (case shouldDropTetromino currentTime g1 of
                      (g2, True) \<Rightarrow> catchError (dropCurrentTetromino rnd g2)
                    | (g2, False) \<Rightarrow> g2)))"

text \<open>
  \<^verbatim>\<open>render\<close> changes no field; its effect is the calls it makes on the renderer, in
  their order. An error thrown by the renderer is caught and dropped.
\<close>

datatype drawCall = Clear | DrawBoard board | DrawTetromino tetromino

definition render :: "game \<Rightarrow> game \<times> drawCall list" where
  "render g =
     (if paused g then (g, [])
      else (g, [Clear, DrawBoard (board g)] @
               (case currentTetromino g of None \<Rightarrow> [] | Some t \<Rightarrow> [DrawTetromino t])))"

section \<open>The operations a host can call\<close>

text \<open>
  The methods the \<^verbatim>\<open>Game\<close> offers to its host: \<^verbatim>\<open>update\<close>, \<^verbatim>\<open>render\<close>,
  \<^verbatim>\<open>togglePause\<close>, \<^verbatim>\<open>spawnNewTetromino\<close> and \<^verbatim>\<open>reset\<close>, with the time and the random
  index a call consumes.
\<close>

datatype operation = OpUpdate int nat | OpRender | OpTogglePause | OpSpawn nat | OpReset

fun exec :: "operation \<Rightarrow> game \<Rightarrow> game" where
  "exec (OpUpdate currentTime rnd) g = update currentTime rnd g"
| "exec OpRender g = fst (render g)"
| "exec OpTogglePause g = fst (togglePause g)"
| "exec (OpSpawn rnd) g = fst (spawnNewTetromino rnd g)"
| "exec OpReset g = reset g"

text \<open>The random index of a call is an index of \<^verbatim>\<open>types\<close>.\<close>

fun validOp :: "operation \<Rightarrow> bool" where
  "validOp (OpUpdate currentTime rnd) = (rnd < length types)"
| "validOp (OpSpawn rnd) = (rnd < length types)"
| "validOp _ = True"

text \<open>The states a game reaches from its construction through these calls.\<close>

inductive reachable :: "game \<Rightarrow> bool" where
  init: "reachable initializeGameState"
| step: "reachable g \<Longrightarrow> validOp op \<Longrightarrow> reachable (exec op g)"

text \<open>
  A game played by \<^verbatim>\<open>update\<close> alone, one call every 1000 ms: the random indices of the
  calls. The pieces are eight O, one I and one J, each falling straight down from the
  spawn position; the last index draws a second J, which cannot be placed.
\<close>

definition pieceDrops :: "nat list" where
  "pieceDrops = [1] @ replicate 18 0 @ [1] @ replicate 16 0 @ [1] @ replicate 14 0 @ [1]
     @ replicate 12 0 @ [1] @ replicate 10 0 @ [1] @ replicate 8 0 @ [1] @ replicate 6 0 @ [1]
     @ replicate 4 0 @ [0] @ replicate 2 0 @ [5] @ replicate 1 0 @ [5]"

definition gameOverTrace :: "operation list" where
  "gameOverTrace =
     map (\<lambda>(i, rnd). OpUpdate (1000 * int i) rnd) (zip [0..<length pieceDrops] pieceDrops)"

text \<open>The state at the end of that game.\<close>

definition gameOverState :: game where
  "gameOverState = \<lparr>score = 0, level = 1, lines = 0, gameOver = True, paused = False,
     board =
       [[0, 0, 0, 0, 0, 0, 0, 0, 0, 0], [0, 0, 0, 0, 6, 0, 0, 0, 0, 0],
        [0, 0, 0, 0, 6, 6, 6, 0, 0, 0], [0, 0, 0, 0, 1, 1, 1, 1, 0, 0],
        [0, 0, 0, 0, 2, 2, 0, 0, 0, 0], [0, 0, 0, 0, 2, 2, 0, 0, 0, 0],
        [0, 0, 0, 0, 2, 2, 0, 0, 0, 0], [0, 0, 0, 0, 2, 2, 0, 0, 0, 0],
        [0, 0, 0, 0, 2, 2, 0, 0, 0, 0], [0, 0, 0, 0, 2, 2, 0, 0, 0, 0],
        [0, 0, 0, 0, 2, 2, 0, 0, 0, 0], [0, 0, 0, 0, 2, 2, 0, 0, 0, 0],
        [0, 0, 0, 0, 2, 2, 0, 0, 0, 0], [0, 0, 0, 0, 2, 2, 0, 0, 0, 0],
        [0, 0, 0, 0, 2, 2, 0, 0, 0, 0], [0, 0, 0, 0, 2, 2, 0, 0, 0, 0],
        [0, 0, 0, 0, 2, 2, 0, 0, 0, 0], [0, 0, 0, 0, 2, 2, 0, 0, 0, 0],
        [0, 0, 0, 0, 2, 2, 0, 0, 0, 0], [0, 0, 0, 0, 2, 2, 0, 0, 0, 0]],
     currentTetromino = None, lastDropTime = 101000, dropInterval = 1000\<rparr>"

section \<open>Predicates of the specification\<close>

text \<open>
  A board is a grid: it has a row, and every row has the length of row 0, which is the
  width that \<^verbatim>\<open>checkCollision\<close> reads as \<^verbatim>\<open>board[0].length\<close>.
\<close>

definition grid :: "board \<Rightarrow> bool" where
  "grid b = (b \<noteq> [] \<and> list_all (\<lambda>r. length r = length (hd b)) b)"

text \<open>
  The collision condition in the words of the specification, for one cell at an
  absolute column and row: the column is outside \<open>[0, width)\<close>, or the row is at least the
  height, or the row is at least 0 and the board cell there is not 0.
\<close>

definition cellBlocked :: "board \<Rightarrow> int \<Rightarrow> int \<Rightarrow> bool" where
  "cellBlocked b absCol absRow =
     (absCol < 0 \<or> absCol \<ge> int (length (hd b)) \<or> absRow \<ge> int (length b)
      \<or> (absRow \<ge> 0 \<and> b ! nat absRow ! nat absCol \<noteq> 0))"

text \<open>Some filled cell of the shape lands on a blocked position.\<close>

definition collisionSpec :: "board \<Rightarrow> int list list \<Rightarrow> int \<Rightarrow> int \<Rightarrow> int \<Rightarrow> int \<Rightarrow> bool" where
  "collisionSpec b s x y offsetX offsetY =
     (\<exists>row \<in> {0..<length s}. \<exists>col \<in> {0..<length (s ! row)}.
        s ! row ! col \<noteq> 0 \<and> cellBlocked b (x + int col + offsetX) (y + int row + offsetY))"

text \<open>
  The number of rows among \<open>r, \<dots>, h - 1\<close> that the list \<open>L\<close> names: the cleared rows
  at or below row \<open>r\<close> on a board of height \<open>h\<close>.
\<close>

definition cleared :: "nat list \<Rightarrow> nat \<Rightarrow> nat \<Rightarrow> nat" where
  "cleared L r h = length (filter (\<lambda>i. i \<in> set L) [r..<h])"

text \<open>The values that the cells of a board hold.\<close>

definition cells :: "board \<Rightarrow> int set" where
  "cells b = set (concat b)"

text \<open>
  The invariant of the board: \<^verbatim>\<open>BOARD_HEIGHT\<close> rows of \<^verbatim>\<open>BOARD_WIDTH\<close> cells, every
  cell between 0 and 7.
\<close>

definition boardInv :: "board \<Rightarrow> bool" where
  "boardInv b =
     (length b = BOARD_HEIGHT
      \<and> list_all (\<lambda>r. length r = BOARD_WIDTH \<and> list_all (\<lambda>c. 0 \<le> c \<and> c \<le> 7) r) b)"

text \<open>
  The invariant of the active piece: its type is one of the seven of the catalog. These
  are the types for which \<open>colorMap\<close> is read.
\<close>

definition tetrominoInv :: "game \<Rightarrow> bool" where
  "tetrominoInv g =
     (case currentTetromino g of None \<Rightarrow> True | Some t \<Rightarrow> t_type t \<in> set types)"

definition gameInv :: "game \<Rightarrow> bool" where
  "gameInv g = (boardInv (board g) \<and> tetrominoInv g)"

text \<open>
  The invariant of the level in the data model: \<open>level = floor(lines / 10) + 1\<close>, with
  a number of lines that is not negative.
\<close>

definition levelInv :: "game \<Rightarrow> bool" where
  "levelInv g = (level g = lines g div 10 + 1 \<and> 0 \<le> lines g)"

section \<open>Scoring\<close>

text \<open>
  Claim C3. For all integers \<open>n\<close> (lines cleared) and \<open>l\<close> (level), \<open>calculateScore n l\<close>
  is the table value 100, 300, 500 or 800 for \<open>n\<close> = 1, 2, 3, 4 times \<open>l\<close> when \<open>n\<close> is
  between 1 and 4 and \<open>l\<close> is at least 1, and 0 in every other case (\<open>l \<le> 0\<close>, \<open>n < 0\<close>,
  \<open>n > 4\<close> or \<open>n = 0\<close>); so \<open>calculateScore 4 2 = 1600\<close>, \<open>calculateScore 0 5 = 0\<close> and
  \<open>calculateScore 5 1 = 0\<close>.
\<close>

theorem calculateScore_table:
  "calculateScore n l =
     (if 1 \<le> n \<and> n \<le> 4 \<and> 1 \<le> l
      then (if n = 1 then 100 else if n = 2 then 300 else if n = 3 then 500 else 800) * l
      else 0)
   \<and> calculateScore 4 2 = 1600 \<and> calculateScore 0 5 = 0 \<and> calculateScore 5 1 = 0"
proof -
  have "n = 0 \<or> n = 1 \<or> n = 2 \<or> n = 3 \<or> n = 4" if "0 \<le> n" "n \<le> 4"
    using that by arith
  then show ?thesis
    by (auto simp: calculateScore_def baseScores_def)
qed

section \<open>Drop clock and pause\<close>

text \<open>
  Claim C9. For every state and every \<open>currentTime\<close>, \<open>shouldDropTetromino\<close> returns
  false and leaves the state as it is when the game is paused or over, and also when
  \<open>currentTime - lastDropTime < dropInterval\<close>; in every other case it returns true and
  the new state is the old one with \<open>lastDropTime\<close> set to \<open>currentTime\<close>, nothing else
  changed.
\<close>

theorem shouldDropTetromino_frame:
  "shouldDropTetromino currentTime g =
     (if paused g \<or> gameOver g \<or> currentTime - lastDropTime g < dropInterval g
      then (g, False)
      else (g\<lparr>lastDropTime := currentTime\<rparr>, True))"
  by (simp add: shouldDropTetromino_def)

text \<open>
  Claim C10. In every state, also one with \<open>gameOver\<close> set, \<open>togglePause\<close> negates
  \<open>paused\<close>, returns the new value and changes no other field; the flag after the call
  differs from the flag before, so the call is never a no-op.
\<close>

theorem togglePause_frame:
  "togglePause g = (g\<lparr>paused := \<not> paused g\<rparr>, \<not> paused g)
   \<and> paused (fst (togglePause g)) \<noteq> paused g
   \<and> togglePause (g\<lparr>gameOver := True\<rparr>)
       = (g\<lparr>gameOver := True, paused := \<not> paused g\<rparr>, \<not> paused g)"
  by (simp add: togglePause_def Let_def)

text \<open>
  Claim C4, the drop interval at levels 3 and 4. The source returns 500 for every level
  from 3 to 5: the test \<^verbatim>\<open>level <= 5\<close> comes before the interpolation
  \<^verbatim>\<open>800 - (level - 2) * 100\<close>, which would give 700 and 600 and is never reached.
\<close>

theorem getDropInterval_levels_3_4:
  "getDropInterval (g\<lparr>level := 3\<rparr>) = 500 \<and> getDropInterval (g\<lparr>level := 4\<rparr>) = 500"
  by (simp add: getDropInterval_def)

text \<open>
  The curve the source computes, and that it never rises with the level: 1000, 800, then
  500 for the levels 3 to 5, then 420, 340, 260, 180, and 100 from level 10 on.
\<close>

lemma getDropInterval_curve:
  "getDropInterval g =
     (if level g \<le> 1 then 1000 else if level g = 2 then 800 else if level g \<le> 5 then 500
      else if level g \<le> 9 then 500 - (level g - 5) * 80 else 100)"
  by (simp add: getDropInterval_def)

lemma getDropInterval_antimono:
  "level g \<le> level g' \<Longrightarrow> getDropInterval g' \<le> getDropInterval g"
  unfolding getDropInterval_curve by (simp split: if_splits)

section \<open>Score, lines and level\<close>

text \<open>
  Claim C7, with the level raised and never lowered. In every state, \<open>addScore\<close> leaves
  the state as it is when \<open>points\<close> or \<open>linesCleared\<close> is not a number or is negative.
  Otherwise it adds \<open>points\<close> to the score and \<open>linesCleared\<close> to the lines and computes
  \<open>newLevel = floor(lines / 10) + 1\<close> from the new lines; when \<open>newLevel\<close> is above the
  level, the level becomes \<open>newLevel\<close> and \<open>dropInterval\<close> becomes \<open>getDropInterval\<close> of
  the new state; when it is not, the level and \<open>dropInterval\<close> stay as they are. No
  other field changes.
\<close>

theorem addScore_effect:
  "addScore points linesCleared g =
    (case (points, linesCleared) of
       (Num p, Num n) \<Rightarrow>
         if p < 0 \<or> n < 0 then g
         else (let newLevel = (lines g + n) div 10 + 1;
                   g' = g\<lparr>score := score g + p, lines := lines g + n\<rparr>
               in if newLevel > level g
                  then g'\<lparr>level := newLevel,
                          dropInterval := getDropInterval (g'\<lparr>level := newLevel\<rparr>)\<rparr>
                  else g')
     | _ \<Rightarrow> g)"
  by (cases points; cases linesCleared)
     (auto simp: addScore_def Let_def updateDropInterval_def)

text \<open>
  The scenario of the specification: the tenth line, cleared alone, takes the level
  from 1 to 2 and the drop interval from 1000 to 800.
\<close>

theorem addScore_effect_witness:
  "addScore (Num 100) (Num 1) (initializeGameState\<lparr>lines := 9\<rparr>)
     = initializeGameState\<lparr>score := 100, lines := 10, level := 2, dropInterval := 800\<rparr>"
  using addScore_effect [of "Num 100" "Num 1" "initializeGameState\<lparr>lines := 9\<rparr>"]
  by (simp add: initializeGameState_def getDropInterval_def)

text \<open>
  A level ahead of the lines, as the test of the drop interval sets it (\<^verbatim>\<open>game.level = 5\<close>
  on a new game): one line cleared gives 1 line, for which \<open>floor(lines / 10) + 1\<close> is 1,
  and the level stays 5.
\<close>

theorem addScore_level_kept_counterexample:
  "addScore (Num 100) (Num 1) (initializeGameState\<lparr>level := 5\<rparr>)
     = initializeGameState\<lparr>level := 5, score := 100, lines := 1\<rparr>
   \<and> level (addScore (Num 100) (Num 1) (initializeGameState\<lparr>level := 5\<rparr>))
       \<noteq> lines (addScore (Num 100) (Num 1) (initializeGameState\<lparr>level := 5\<rparr>)) div 10 + 1"
  by (simp add: addScore_def Let_def initializeGameState_def)

subsection \<open>The level in the states a game reaches\<close>

text \<open>
  \<open>addScore\<close> keeps the invariant of the level, whatever its arguments: on a state that
  satisfies it the new level is \<open>floor(lines / 10) + 1\<close> of the new lines.
\<close>

lemma addScore_levelInv:
  assumes "levelInv g"
  shows "levelInv (addScore points linesCleared g)"
proof (cases points)
  case NotNum
  with assms show ?thesis by (simp add: addScore_def)
next
  case p: (Num p)
  show ?thesis
  proof (cases linesCleared)
    case NotNum
    with assms show ?thesis by (simp add: p addScore_def)
  next
    case n: (Num n)
    show ?thesis
    proof (cases "p < 0 \<or> n < 0")
      case True
      with assms show ?thesis by (auto simp: p n addScore_def)
    next
      case False
      then have "lines g div 10 \<le> (lines g + n) div 10"
        by (intro zdiv_mono1) auto
      with False assms show ?thesis
        by (auto simp: p n addScore_def Let_def updateDropInterval_def levelInv_def)
    qed
  qed
qed

lemma validate_levelInv:
  assumes "levelInv g"
  shows "levelInv (validateAndFixGameState g)"
proof -
  from assms have "0 \<le> lines g div 10"
    by (simp add: levelInv_def pos_imp_zdiv_nonneg_iff)
  with assms show ?thesis
    by (simp add: levelInv_def validateAndFixGameState_def Let_def)
qed

lemma spawn_levelInv: "levelInv (fst (spawnNewTetromino rnd g)) = levelInv g"
  by (simp add: spawnNewTetromino_def setGameOver_def Let_def levelInv_def
        split: sum.splits bool.splits)

lemma shouldDrop_levelInv: "levelInv (fst (shouldDropTetromino t g)) = levelInv g"
  by (simp add: shouldDropTetromino_def levelInv_def)

lemma catchError_levelInv: "levelInv (catchError r) = levelInv (fst r)"
  by (cases r) (simp add: catchError_def levelInv_def split: sum.splits)

lemma processLineClearing_levelInv:
  assumes "levelInv g"
  shows "levelInv (fst (processLineClearing g))"
proof -
  have "levelInv (g\<lparr>board := b\<rparr>)" for b
    using assms by (simp add: levelInv_def)
  then show ?thesis
    using assms
    by (simp add: processLineClearing_def Let_def addScore_levelInv
          split: prod.splits option.splits)
qed

lemma fixTetrominoToBoard_levelInv:
  assumes "levelInv g"
  shows "levelInv (fst (fixTetrominoToBoard rnd g))"
proof (cases "currentTetromino g")
  case None
  with assms show ?thesis by (simp add: fixTetrominoToBoard_def)
next
  case (Some t)
  let ?g1 = "g\<lparr>board := fixRows (board g) (t_shape t) 0 (t_x t) (t_y t) (t_type t)\<rparr>"
  have "levelInv ?g1"
    using assms by (simp add: levelInv_def)
  then have inv2: "levelInv (fst (processLineClearing ?g1))"
    by (rule processLineClearing_levelInv)
  obtain g2 r where p: "processLineClearing ?g1 = (g2, r)"
    by (cases "processLineClearing ?g1")
  with inv2 have g2: "levelInv g2" by simp
  show ?thesis
  proof (cases r)
    case (Inl e)
    with g2 show ?thesis by (simp add: fixTetrominoToBoard_def Some p)
  next
    case (Inr u)
    from g2 have "levelInv (g2\<lparr>currentTetromino := None\<rparr>)"
      by (simp add: levelInv_def)
    then have "levelInv (fst (spawnNewTetromino rnd (g2\<lparr>currentTetromino := None\<rparr>)))"
      by (simp add: spawn_levelInv)
    moreover obtain g3 r3
      where "spawnNewTetromino rnd (g2\<lparr>currentTetromino := None\<rparr>) = (g3, r3)"
      by (cases "spawnNewTetromino rnd (g2\<lparr>currentTetromino := None\<rparr>)")
    ultimately show ?thesis
      using Inr by (simp add: fixTetrominoToBoard_def Some p split: sum.splits)
  qed
qed

lemma dropCurrentTetromino_levelInv:
  assumes "levelInv g"
  shows "levelInv (fst (dropCurrentTetromino rnd g))"
  using assms fixTetrominoToBoard_levelInv [OF assms, of rnd]
  by (auto simp: dropCurrentTetromino_def levelInv_def
        split: option.splits sum.splits bool.splits)

lemma update_levelInv:
  assumes "levelInv g"
  shows "levelInv (update t rnd g)"
proof -
  let ?g1 = "validateAndFixGameState g"
  have g1: "levelInv ?g1"
    using assms by (rule validate_levelInv)
  obtain g2 d where sd: "shouldDropTetromino t ?g1 = (g2, d)"
    by (cases "shouldDropTetromino t ?g1")
  with g1 have g2: "levelInv g2"
    using shouldDrop_levelInv [of t ?g1] by simp
  show ?thesis
    using g1 g2 dropCurrentTetromino_levelInv [OF g2, of rnd]
    by (simp add: update_def Let_def sd catchError_levelInv spawn_levelInv
          split: option.splits bool.splits)
qed

lemma initial_levelInv: "levelInv initializeGameState"
  by (simp add: levelInv_def initializeGameState_def)

lemma exec_levelInv:
  assumes "levelInv g"
  shows "levelInv (exec op g)"
proof (cases op)
  case (OpUpdate currentTime rnd)
  with assms show ?thesis by (simp add: update_levelInv)
next
  case (OpSpawn rnd)
  with assms show ?thesis by (simp add: spawn_levelInv)
next
  case OpReset
  then show ?thesis by (simp add: reset_def initial_levelInv)
next
  case OpRender
  with assms show ?thesis by (simp add: render_def)
next
  case OpTogglePause
  with assms show ?thesis by (simp add: togglePause_def Let_def levelInv_def)
qed

text \<open>
  Every state that a game reaches through the calls of its host satisfies the invariant
  of the level, so there \<open>addScore\<close> with arguments it accepts leaves the level at
  \<open>floor(lines / 10) + 1\<close> of the new lines.
\<close>

lemma reachable_levelInv: "reachable g \<Longrightarrow> levelInv g"
  by (induction rule: reachable.induct) (simp_all add: initial_levelInv exec_levelInv)

lemma addScore_level_reachable:
  assumes "reachable g" and "0 \<le> p" and "0 \<le> n"
  shows "level (addScore (Num p) (Num n) g) = lines (addScore (Num p) (Num n) g) div 10 + 1"
    and "lines (addScore (Num p) (Num n) g) = lines g + n"
proof -
  from assms(1) have "levelInv g" by (rule reachable_levelInv)
  then have "levelInv (addScore (Num p) (Num n) g)" by (rule addScore_levelInv)
  then show "level (addScore (Num p) (Num n) g)
               = lines (addScore (Num p) (Num n) g) div 10 + 1"
    by (simp add: levelInv_def)
  show "lines (addScore (Num p) (Num n) g) = lines g + n"
    using assms(2,3) by (simp add: addScore_def Let_def updateDropInterval_def)
qed

section \<open>Collision\<close>

lemma bex_upt_Suc: "(\<exists>j \<in> {0..<Suc n}. P j) = (P 0 \<or> (\<exists>j \<in> {0..<n}. P (Suc j)))"
proof
  assume "\<exists>j \<in> {0..<Suc n}. P j"
  then obtain j where j: "j < Suc n" "P j" by auto
  show "P 0 \<or> (\<exists>j \<in> {0..<n}. P (Suc j))"
  proof (cases j)
    case 0
    with j show ?thesis by simp
  next
    case (Suc k)
    with j have "k \<in> {0..<n}" "P (Suc k)" by auto
    then show ?thesis by blast
  qed
next
  assume "P 0 \<or> (\<exists>j \<in> {0..<n}. P (Suc j))"
  then show "\<exists>j \<in> {0..<Suc n}. P j" by auto
qed

text \<open>On a grid the test of one cell never throws and is the condition of the specification.\<close>

lemma cellCollides_grid:
  assumes "grid b"
  shows "cellCollides b newX newY = Inr (cellBlocked b newX newY)"
proof -
  from assms obtain row0 rest where b: "b = row0 # rest"
    by (cases b) (auto simp: grid_def)
  have len: "length (b ! nat newY) = length row0" if "0 \<le> newY" "newY < int (length b)"
  proof -
    from that have "b ! nat newY \<in> set b" by (intro nth_mem) linarith
    with assms b show ?thesis by (auto simp: grid_def list_all_iff)
  qed
  show ?thesis
    using len by (auto simp: cellCollides_def cellBlocked_def boardCell_def b Let_def)
qed

lemma checkCols_grid:
  assumes "grid b"
  shows "checkCols b cs row col x y offsetX offsetY =
     Inr (\<exists>j \<in> {0..<length cs}.
            cs ! j \<noteq> 0 \<and> cellBlocked b (x + int (col + j) + offsetX) (y + int row + offsetY))"
proof (induction cs arbitrary: col)
  case Nil
  show ?case by simp
next
  case (Cons c cs)
  show ?case
    by (auto simp add: Cons.IH cellCollides_grid [OF assms] bex_upt_Suc add.assoc add.left_commute
          simp del: atLeastLessThan_iff split: bool.splits)
qed

lemma checkRows_grid:
  assumes "grid b"
  shows "checkRows b rs row x y offsetX offsetY =
     Inr (\<exists>i \<in> {0..<length rs}. \<exists>j \<in> {0..<length (rs ! i)}.
            rs ! i ! j \<noteq> 0 \<and> cellBlocked b (x + int j + offsetX) (y + int (row + i) + offsetY))"
proof (induction rs arbitrary: row)
  case Nil
  show ?case by simp
next
  case (Cons r rs)
  show ?case
    by (auto simp add: Cons.IH checkCols_grid [OF assms] bex_upt_Suc add.assoc add.left_commute
          simp del: atLeastLessThan_iff split: bool.splits)
qed

text \<open>
  Claim C1. On every board that is a grid, for every shape, position and offsets,
  \<open>checkCollision\<close> returns true exactly when some filled cell of the shape lands at a
  column outside \<open>[0, width)\<close>, or at a row at least the height, or at a row at least 0
  over a board cell that is not 0. A cell at a row below 0 enters the condition through
  its column only, so the board is not read for it. A \<^verbatim>\<open>null\<close> shape and an empty
  shape give false on every board.
\<close>

theorem checkCollision_iff:
  assumes "grid b"
  shows "checkCollision b (Some s) x y offsetX offsetY
           = Inr (collisionSpec b s x y offsetX offsetY)
     \<and> checkCollision b' None x y offsetX offsetY = Inr False
     \<and> checkCollision b' (Some []) x y offsetX offsetY = Inr False"
  by (cases s)
     (simp_all add: checkCollision_def collisionSpec_def checkRows_grid [OF assms]
        del: checkRows.simps)

text \<open>
  On the empty 10 by 20 board the piece I at its spawn position (4, 0) does not collide;
  one row lower than the last row it does.
\<close>

theorem checkCollision_iff_witness:
  "grid (createEmptyBoard 10 20)
   \<and> checkCollision (createEmptyBoard 10 20)
        (Some [[0,0,0,0], [1,1,1,1], [0,0,0,0], [0,0,0,0]]) 4 0 0 0 = Inr False
   \<and> checkCollision (createEmptyBoard 10 20)
        (Some [[0,0,0,0], [1,1,1,1], [0,0,0,0], [0,0,0,0]]) 4 18 0 1 = Inr True"
proof -
  have g: "grid (createEmptyBoard 10 20)"
    by (simp add: grid_def createEmptyBoard_def list_all_iff)
  have "collisionSpec (createEmptyBoard 10 20) [[0,0,0,0], [1,1,1,1], [0,0,0,0], [0,0,0,0]] 4 0 0 0
          = False"
    by code_simp
  moreover have "collisionSpec (createEmptyBoard 10 20)
                   [[0,0,0,0], [1,1,1,1], [0,0,0,0], [0,0,0,0]] 4 18 0 1 = True"
    by code_simp
  ultimately show ?thesis
    using g
      checkCollision_iff [OF g, of "[[0,0,0,0], [1,1,1,1], [0,0,0,0], [0,0,0,0]]" 4 0 0 0]
      checkCollision_iff [OF g, of "[[0,0,0,0], [1,1,1,1], [0,0,0,0], [0,0,0,0]]" 4 18 0 1]
    by simp
qed

section \<open>Spawning on a blocked board\<close>

lemma cellCollides_top_rows:
  assumes "2 \<le> length b"
    and "list_all (\<lambda>c. c \<noteq> 0) (b ! 0)" and "list_all (\<lambda>c. c \<noteq> 0) (b ! 1)"
    and "newY = 0 \<or> newY = 1"
  shows "cellCollides b newX newY = Inr True"
proof -
  from assms(1) obtain row0 rest where b: "b = row0 # rest"
    by (cases b) auto
  have "b ! nat newY ! nat newX \<noteq> 0" if "nat newX < length (b ! nat newY)"
  proof -
    from that have "b ! nat newY ! nat newX \<in> set (b ! nat newY)" by simp
    with assms(2,3,4) show ?thesis by (auto simp: list_all_iff)
  qed
  then show ?thesis
    using assms(4) by (auto simp: cellCollides_def boardCell_def Let_def b)
qed

text \<open>The seven pieces as \<open>createTetromino\<close> builds them.\<close>

lemma createTetromino_types:
  "createTetromino (Some ''I'') = \<lparr>t_type = ''I'',
     t_shape = [[0,0,0,0], [1,1,1,1], [0,0,0,0], [0,0,0,0]],
     t_color = ''cyan'', t_x = 4, t_y = 0, t_rotation = 0\<rparr>"
  "createTetromino (Some ''O'') = \<lparr>t_type = ''O'', t_shape = [[1,1], [1,1]],
     t_color = ''yellow'', t_x = 4, t_y = 0, t_rotation = 0\<rparr>"
  "createTetromino (Some ''T'') = \<lparr>t_type = ''T'', t_shape = [[0,1,0], [1,1,1], [0,0,0]],
     t_color = ''purple'', t_x = 4, t_y = 0, t_rotation = 0\<rparr>"
  "createTetromino (Some ''S'') = \<lparr>t_type = ''S'', t_shape = [[0,1,1], [1,1,0], [0,0,0]],
     t_color = ''green'', t_x = 4, t_y = 0, t_rotation = 0\<rparr>"
  "createTetromino (Some ''Z'') = \<lparr>t_type = ''Z'', t_shape = [[1,1,0], [0,1,1], [0,0,0]],
     t_color = ''red'', t_x = 4, t_y = 0, t_rotation = 0\<rparr>"
  "createTetromino (Some ''J'') = \<lparr>t_type = ''J'', t_shape = [[1,0,0], [1,1,1], [0,0,0]],
     t_color = ''blue'', t_x = 4, t_y = 0, t_rotation = 0\<rparr>"
  "createTetromino (Some ''L'') = \<lparr>t_type = ''L'', t_shape = [[0,0,1], [1,1,1], [0,0,0]],
     t_color = ''orange'', t_x = 4, t_y = 0, t_rotation = 0\<rparr>"
  by (simp_all add: createTetromino_def TETROMINOS_def)

lemma createTetromino_position:
  "t_x (createTetromino ty) = 4" "t_y (createTetromino ty) = 0"
  by (simp_all add: createTetromino_def Let_def)

lemma rnd_cases:
  assumes "rnd < (7::nat)"
  shows "rnd = 0 \<or> rnd = 1 \<or> rnd = 2 \<or> rnd = 3 \<or> rnd = 4 \<or> rnd = 5 \<or> rnd = 6"
  using assms by arith

text \<open>
  Claim C6. On every board whose rows 0 and 1 hold no 0, for each of the seven types
  the random index can select, \<open>spawnNewTetromino\<close> finds a collision at the spawn
  position: it returns false and the state is the old one with \<open>gameOver\<close> set, so the
  board and \<open>currentTetromino\<close> are as before and no piece is installed.
\<close>

theorem spawn_on_full_top_rows:
  assumes "2 \<le> length (board g)"
    and "list_all (\<lambda>c. c \<noteq> 0) (board g ! 0)" and "list_all (\<lambda>c. c \<noteq> 0) (board g ! 1)"
    and "rnd < 7"
  shows "spawnNewTetromino rnd g = (g\<lparr>gameOver := True\<rparr>, Inr False)"
proof -
  note top = cellCollides_top_rows [OF assms(1,2,3)]
  have "checkCollision (board g) (Some (t_shape (createTetromino (Some (types ! rnd))))) 4 0 0 0
          = Inr True"
    using rnd_cases [OF assms(4)]
    by (elim disjE) (simp_all add: types_def createTetromino_types checkCollision_def top)
  then show ?thesis
    using assms(4)
    by (simp add: spawnNewTetromino_def Let_def setGameOver_def types_def
          createTetromino_position)
qed

text \<open>The board of the test suite: rows 0 and 1 filled with 1, piece T drawn.\<close>

theorem spawn_on_full_top_rows_witness:
  "2 \<le> length (board (initializeGameState
          \<lparr>board := replicate 2 (replicate 10 1) @ replicate 18 (replicate 10 0)\<rparr>))
   \<and> (2::nat) < 7
   \<and> spawnNewTetromino 2 (initializeGameState
          \<lparr>board := replicate 2 (replicate 10 1) @ replicate 18 (replicate 10 0)\<rparr>)
       = (initializeGameState
            \<lparr>board := replicate 2 (replicate 10 1) @ replicate 18 (replicate 10 0),
             gameOver := True\<rparr>, Inr False)"
proof -
  let ?g = "initializeGameState
              \<lparr>board := replicate 2 (replicate 10 1) @ replicate 18 (replicate 10 0)\<rparr>"
  have h1: "2 \<le> length (board ?g)" by simp
  have h2: "list_all (\<lambda>c. c \<noteq> 0) (board ?g ! 0)"
    by (simp add: nth_append list_all_iff)
  have h3: "list_all (\<lambda>c. c \<noteq> 0) (board ?g ! 1)"
    by (simp add: nth_append list_all_iff)
  have h4: "(2::nat) < 7" by simp
  show ?thesis
    using spawn_on_full_top_rows [OF h1 h2 h3 h4] by simp
qed

section \<open>Clearing lines and compacting the board\<close>

lemma fold_zero_upt:
  "n \<le> length r \<Longrightarrow> fold (\<lambda>col r'. r'[col := 0::int]) [0..<n] r = replicate n 0 @ drop n r"
proof (induction n)
  case 0
  show ?case by simp
next
  case (Suc n)
  then have "n < length r" by simp
  then have "(replicate n 0 @ drop n r)[n := 0::int] = replicate n 0 @ 0 # drop (Suc n) r"
    by (simp add: list_update_append Cons_nth_drop_Suc [symmetric])
  with Suc show ?case
    by (simp add: replicate_append_same)
qed

lemma clearRow_eq: "clearRow r = replicate (length r) 0"
  by (simp add: clearRow_def fold_zero_upt)

lemma fold_copy_upt:
  "n \<le> length src \<Longrightarrow> n \<le> length dst \<Longrightarrow>
   fold (\<lambda>col d. d[col := src ! col]) [0..<n] dst = take n src @ drop n dst"
proof (induction n)
  case 0
  show ?case by simp
next
  case (Suc n)
  then have n: "n < length src" "n < length dst" by simp_all
  then have "(take n src @ drop n dst)[n := src ! n] = take n src @ src ! n # drop (Suc n) dst"
    by (simp add: list_update_append Cons_nth_drop_Suc [symmetric])
  with Suc n show ?case
    by (simp add: take_Suc_conv_app_nth)
qed

lemma copyRow_eq: "length src = length dst \<Longrightarrow> copyRow src dst = src"
  by (simp add: copyRow_def fold_copy_upt)

lemma fold_clearRow_upt:
  "k \<le> length bd \<Longrightarrow>
   fold (\<lambda>row bd. bd[row := clearRow (bd ! row)]) [0..<k] bd
     = map clearRow (take k bd) @ drop k bd"
proof (induction k)
  case 0
  show ?case by simp
next
  case (Suc k)
  then have k: "k < length bd" by simp
  then have "(map clearRow (take k bd) @ drop k bd)[k := clearRow (bd ! k)]
               = map clearRow (take k bd) @ clearRow (bd ! k) # drop (Suc k) bd"
    by (simp add: list_update_append Cons_nth_drop_Suc [symmetric])
  with Suc k show ?case
    by (simp add: take_Suc_conv_app_nth nth_append)
qed

text \<open>With every index inside the board, \<open>clearLines\<close> does not throw and zeroes the listed rows.\<close>

lemma clearLines_in_range:
  "list_all (\<lambda>i. i < length b) L \<Longrightarrow>
   clearLines b L
     = (map (\<lambda>i. if i \<in> set L then clearRow (b ! i) else b ! i) [0..<length b], None)"
proof (induction L arbitrary: b)
  case Nil
  show ?case by (simp add: map_nth)
next
  case (Cons i L)
  then have i: "i < length b" and L: "list_all (\<lambda>j. j < length (b[i := clearRow (b ! i)])) L"
    by simp_all
  have "map (\<lambda>j. if j \<in> set L then clearRow (b[i := clearRow (b ! i)] ! j)
                  else b[i := clearRow (b ! i)] ! j) [0..<length b]
        = map (\<lambda>j. if j \<in> set (i # L) then clearRow (b ! j) else b ! j) [0..<length b]"
    using i by (auto simp: nth_list_update clearRow_eq)
  with Cons.IH [OF L] i show ?case by simp
qed

lemma cleared_le: "r + cleared L r h \<le> h" if "r \<le> h"
proof -
  have "cleared L r h \<le> length [r..<h]"
    unfolding cleared_def by (rule length_filter_le)
  with that show ?thesis by simp
qed

lemma cleared_step:
  "r < h \<Longrightarrow>
   cleared L r h = (if r \<in> set L then Suc (cleared L (Suc r) h) else cleared L (Suc r) h)"
  by (simp add: cleared_def upt_conv_Cons)

text \<open>
  The state of the loop over \<^verbatim>\<open>readRow\<close> once the rows \<open>r\<close> to the last have been read:
  the rows above \<^verbatim>\<open>writeRow\<close> are as at the start, the rows below hold the rows kept so
  far in their order, and \<^verbatim>\<open>writeRow\<close> is \<open>r\<close> plus the cleared rows seen, less one.
\<close>

lemma drop_loop:
  assumes rect: "list_all (\<lambda>row. length row = w) b" and r: "r \<le> length b"
  shows "fold (dropStep L) (rev [r..<length b]) (b, int (length b) - 1)
           = (take (r + cleared L r (length b)) b
                @ map ((!) b) (filter (\<lambda>i. i \<notin> set L) [r..<length b]),
              int (r + cleared L r (length b)) - 1)"
  using r
proof (induction rule: inc_induct)
  case base
  show ?case by (simp add: cleared_def)
next
  case (step n)
  let ?h = "length b"
  let ?m = "n + cleared L (Suc n) ?h"
  let ?K = "map ((!) b) (filter (\<lambda>i. i \<notin> set L) [Suc n..<?h])"
  have le: "Suc ?m \<le> ?h"
    using cleared_le [of "Suc n" ?h L] step.hyps by simp
  have unfold: "fold (dropStep L) (rev [n..<?h]) (b, int ?h - 1)
      = dropStep L n (take (Suc ?m) b @ ?K, int ?m)"
    using step.hyps step.IH by (simp add: upt_conv_Cons)
  show ?case
  proof (cases "n \<in> set L")
    case True
    with step.hyps have t: "cleared L n ?h = Suc (cleared L (Suc n) ?h)"
      "filter (\<lambda>i. i \<notin> set L) [n..<?h] = filter (\<lambda>i. i \<notin> set L) [Suc n..<?h]"
      by (simp_all add: cleared_step upt_conv_Cons)
    show ?thesis
      unfolding unfold by (simp add: dropStep_def True t)
  next
    case False
    have len: "length (b ! i) = w" if "i < ?h" for i
      using rect that by (auto simp: list_all_iff)
    have tk: "take (Suc ?m) b = take ?m b @ [b ! ?m]"
      using le by (simp add: take_Suc_conv_app_nth)
    have rd: "(take (Suc ?m) b @ ?K) ! n = b ! n"
      using le by (simp add: nth_append)
    have wr: "(take (Suc ?m) b @ ?K) ! ?m = b ! ?m"
      using le by (simp add: nth_append)
    have cp: "copyRow (b ! n) (b ! ?m) = b ! n"
      using le step.hyps by (intro copyRow_eq) (simp add: len)
    have "length (take ?m b) = ?m"
      using le by simp
    then have upd: "(take (Suc ?m) b @ ?K)[?m := b ! n] = take ?m b @ b ! n # ?K"
      unfolding tk by (simp add: list_update_append del: length_take)
    have same: "take (Suc ?m) b @ ?K = take ?m b @ b ! n # ?K" if "int ?m = int n"
      using that unfolding tk by simp
    have "dropStep L n (take (Suc ?m) b @ ?K, int ?m) = (take ?m b @ b ! n # ?K, int ?m - 1)"
    proof (cases "int ?m = int n")
      case True
      with False same show ?thesis
        by (simp add: dropStep_def del: take_Suc of_nat_add)
    next
      case neq: False
      with False show ?thesis
        by (simp add: dropStep_def rd wr cp upd del: take_Suc of_nat_add)
    qed
    moreover from False step.hyps have "cleared L n ?h = cleared L (Suc n) ?h"
      "filter (\<lambda>i. i \<notin> set L) [n..<?h] = n # filter (\<lambda>i. i \<notin> set L) [Suc n..<?h]"
      by (simp_all add: cleared_step upt_conv_Cons)
    ultimately show ?thesis
      unfolding unfold by simp
  qed
qed

lemma map_clearRow_rect:
  assumes "list_all (\<lambda>row. length row = w) rs"
  shows "map clearRow rs = replicate (length rs) (replicate w 0)"
  using assms by (induction rs) (simp_all add: clearRow_eq)

text \<open>
  \<open>dropLinesDown\<close> in closed form: as many zero rows as there are rows named by \<open>L\<close>,
  then the other rows in their order.
\<close>

lemma dropLinesDown_eq:
  assumes rect: "list_all (\<lambda>row. length row = w) b"
  shows "dropLinesDown b L
           = replicate (cleared L 0 (length b)) (replicate w 0)
               @ map ((!) b) (filter (\<lambda>i. i \<notin> set L) [0..<length b])"
proof (cases "L = []")
  case True
  then show ?thesis by (simp add: dropLinesDown_def cleared_def map_nth)
next
  case False
  let ?k = "cleared L 0 (length b)"
  let ?K = "map ((!) b) (filter (\<lambda>i. i \<notin> set L) [0..<length b])"
  have k: "?k \<le> length b" using cleared_le [of 0 "length b" L] by simp
  have loop: "fold (dropStep L) (rev [0..<length b]) (b, int (length b) - 1)
                = (take ?k b @ ?K, int ?k - 1)"
    using drop_loop [OF rect, of 0 L] by simp
  have "list_all (\<lambda>row. length row = w) (take ?k b)"
    using rect by (auto simp: list_all_iff dest: in_set_takeD)
  then have zeros: "map clearRow (take ?k b) = replicate ?k (replicate w 0)"
    using k by (simp add: map_clearRow_rect)
  have "fold (\<lambda>row bd. bd[row := clearRow (bd ! row)]) [0..<?k] (take ?k b @ ?K)
          = map clearRow (take ?k (take ?k b @ ?K)) @ drop ?k (take ?k b @ ?K)"
    using k by (intro fold_clearRow_upt) simp
  also have "\<dots> = replicate ?k (replicate w 0) @ ?K"
    using k by (simp add: zeros)
  finally show ?thesis
    using False by (simp add: dropLinesDown_def loop)
qed

lemma clear_then_drop_eq:
  assumes rect: "list_all (\<lambda>row. length row = w) b" and inr: "list_all (\<lambda>i. i < length b) L"
  shows "snd (clearLines b L) = None"
    and "dropLinesDown (fst (clearLines b L)) L
           = replicate (cleared L 0 (length b)) (replicate w 0)
               @ map ((!) b) (filter (\<lambda>i. i \<notin> set L) [0..<length b])"
proof -
  let ?b1 = "map (\<lambda>i. if i \<in> set L then clearRow (b ! i) else b ! i) [0..<length b]"
  have cl: "clearLines b L = (?b1, None)"
    by (rule clearLines_in_range [OF inr])
  then show "snd (clearLines b L) = None" by simp
  have rect1: "list_all (\<lambda>row. length row = w) ?b1"
    using rect by (auto simp: list_all_iff clearRow_eq)
  have "map ((!) ?b1) (filter (\<lambda>i. i \<notin> set L) [0..<length b])
          = map ((!) b) (filter (\<lambda>i. i \<notin> set L) [0..<length b])"
    by (rule map_cong) auto
  then show "dropLinesDown (fst (clearLines b L)) L
           = replicate (cleared L 0 (length b)) (replicate w 0)
               @ map ((!) b) (filter (\<lambda>i. i \<notin> set L) [0..<length b])"
    using dropLinesDown_eq [OF rect1, of L] by (simp add: cl)
qed

lemma cleared_card:
  assumes "list_all (\<lambda>i. i < h) L"
  shows "cleared L r h = card {i \<in> set L. r \<le> i}"
proof -
  have "set (filter (\<lambda>i. i \<in> set L) [r..<h]) = {i \<in> set L. r \<le> i}"
    using assms by (auto simp: list_all_iff)
  moreover have "distinct (filter (\<lambda>i. i \<in> set L) [r..<h])" by simp
  ultimately show ?thesis
    unfolding cleared_def by (metis distinct_card)
qed

text \<open>Where a row that is kept stands among the kept rows.\<close>

lemma kept_nth:
  assumes "r < h" "r \<notin> set L"
  shows "filter (\<lambda>i. i \<notin> set L) [0..<h] ! (r - cleared L 0 r) = r"
    and "r - cleared L 0 r < length (filter (\<lambda>i. i \<notin> set L) [0..<h])"
    and "cleared L 0 h = cleared L 0 r + cleared L (Suc r) h"
    and "cleared L 0 r \<le> r"
proof -
  have split: "[0..<h] = [0..<r] @ r # [Suc r..<h]"
  proof -
    from assms(1) have "[0..<r + (h - r)] = [0..<r] @ [r..<r + (h - r)]"
      by (intro upt_add_eq_append) simp
    with assms(1) show ?thesis by (simp add: upt_conv_Cons)
  qed
  have "length (filter (\<lambda>i. i \<in> set L) [0..<r]) + length (filter (\<lambda>i. i \<notin> set L) [0..<r]) = r"
    using sum_length_filter_compl [of "\<lambda>i. i \<in> set L" "[0..<r]"] by simp
  then have a: "length (filter (\<lambda>i. i \<notin> set L) [0..<r]) = r - cleared L 0 r"
    and le: "cleared L 0 r \<le> r"
    by (simp_all add: cleared_def)
  show "filter (\<lambda>i. i \<notin> set L) [0..<h] ! (r - cleared L 0 r) = r"
    using assms(2) by (simp add: split nth_append a [symmetric])
  show "r - cleared L 0 r < length (filter (\<lambda>i. i \<notin> set L) [0..<h])"
    using assms(2) by (simp add: split a [symmetric])
  show "cleared L 0 h = cleared L 0 r + cleared L (Suc r) h"
    using assms(2) by (simp add: cleared_def split)
  show "cleared L 0 r \<le> r" by (rule le)
qed

text \<open>
  Claim C2, with the number of different rows in \<open>L\<close> where the claim has the length of
  \<open>L\<close>. On a board whose rows all have \<open>w\<close> cells, for a list \<open>L\<close> of row indices of the
  board, \<open>clearLines\<close> does not throw, and \<open>dropLinesDown\<close> after it gives a board \<open>b'\<close>
  with the same number of rows, all of \<open>w\<close> cells; \<open>b'\<close> is one zero row for each different
  row in \<open>L\<close>, followed by the rows of \<open>b\<close> that \<open>L\<close> does not name, cell for cell and in
  their order; a kept row \<open>r\<close> stands at \<open>r\<close> plus the number of cleared rows below it;
  the top rows, as many as \<open>L\<close> has different rows, are zero. The two counts agree when
  no row is listed twice. With the empty list \<open>dropLinesDown\<close> returns the board as it is.
\<close>

theorem clear_then_drop:
  assumes rect: "list_all (\<lambda>row. length row = w) b" and inr: "list_all (\<lambda>i. i < length b) L"
  shows "snd (clearLines b L) = None
     \<and> (let b' = dropLinesDown (fst (clearLines b L)) L in
          length b' = length b \<and> list_all (\<lambda>row. length row = w) b'
          \<and> b' = replicate (card (set L)) (replicate w 0)
                   @ map ((!) b) (filter (\<lambda>r. r \<notin> set L) [0..<length b])
          \<and> (\<forall>r < length b. r \<notin> set L \<longrightarrow> b' ! (r + card {i \<in> set L. r < i}) = b ! r)
          \<and> (\<forall>r < card (set L). b' ! r = replicate w 0))
     \<and> (distinct L \<longrightarrow> card (set L) = length L)
     \<and> dropLinesDown b [] = b"
proof -
  let ?h = "length b"
  let ?k = "cleared L 0 ?h"
  let ?kept = "filter (\<lambda>r. r \<notin> set L) [0..<?h]"
  let ?b' = "replicate ?k (replicate w 0) @ map ((!) b) ?kept"
  note cd = clear_then_drop_eq [OF rect inr]
  have k: "?k = card (set L)"
    using cleared_card [OF inr, of 0] by simp
  have "?k + length ?kept = ?h"
    using sum_length_filter_compl [of "\<lambda>i. i \<in> set L" "[0..<?h]"] by (simp add: cleared_def)
  then have len: "length ?b' = ?h" by simp
  have rect': "list_all (\<lambda>row. length row = w) ?b'"
    using rect by (auto simp: list_all_iff)
  have shift: "?b' ! (r + card {i \<in> set L. r < i}) = b ! r" if "r < ?h" "r \<notin> set L" for r
  proof -
    have "card {i \<in> set L. r < i} = cleared L (Suc r) ?h"
      using cleared_card [OF inr, of "Suc r"] by (simp add: Suc_le_eq)
    moreover note kn = kept_nth [OF that]
    ultimately have "r + card {i \<in> set L. r < i} = ?k + (r - cleared L 0 r)"
      by simp
    then show ?thesis
      using kn(1,2) by (simp add: nth_append)
  qed
  have top: "?b' ! r = replicate w 0" if "r < ?k" for r
    using that by (simp add: nth_append)
  have dist: "distinct L \<longrightarrow> card (set L) = length L"
    by (simp add: distinct_card)
  have empty: "dropLinesDown b [] = b"
    by (simp add: dropLinesDown_def)
  show ?thesis
    using len rect' shift top dist empty unfolding cd Let_def k
    by simp
qed

text \<open>
  Rows 1 and 3 of a board of four rows are cleared: rows 0 and 2 come to stand in rows
  2 and 3, under two zero rows.
\<close>

theorem clear_then_drop_witness:
  "list_all (\<lambda>row. length row = 2) [[1, 2], [3, 4], [5, 6], [7, 8 :: int]]
   \<and> list_all (\<lambda>i. i < length [[1, 2], [3, 4], [5, 6], [7, 8 :: int]]) [1, 3]
   \<and> dropLinesDown (fst (clearLines [[1, 2], [3, 4], [5, 6], [7, 8]] [1, 3])) [1, 3]
       = [[0, 0], [0, 0], [1, 2], [5, 6]]"
proof -
  have h1: "list_all (\<lambda>row. length row = 2) [[1, 2], [3, 4], [5, 6], [7, 8 :: int]]"
    by simp
  have h2: "list_all (\<lambda>i. i < length [[1, 2], [3, 4], [5, 6], [7, 8 :: int]]) [1, 3]"
    by simp
  have "dropLinesDown (fst (clearLines [[1, 2], [3, 4], [5, 6], [7, 8]] [1, 3])) [1, 3]
          = [[0, 0], [0, 0], [1, 2], [5, 6]]"
    by code_simp
  then show ?thesis
    using h1 h2 clear_then_drop [OF h1 h2] by simp
qed

text \<open>
  A row listed twice: \<open>L = [1, 1]\<close> has length 2, but one row is cleared and one zero row
  comes in at the top. Row 1 of the result is the old row 0 and is not zero.
\<close>

theorem clear_then_drop_duplicate_counterexample:
  "dropLinesDown (fst (clearLines [[5], [7]] [1, 1])) [1, 1] = [[0], [5]]
   \<and> (1::nat) < length [1, 1 :: nat]
   \<and> dropLinesDown (fst (clearLines [[5], [7]] [1, 1])) [1, 1] ! 1 \<noteq> replicate 1 0"
proof -
  have "dropLinesDown (fst (clearLines [[5], [7]] [1, 1])) [1, 1] = [[0], [5]]"
    by code_simp
  then show ?thesis by simp
qed

section \<open>The invariant of the board\<close>

lemma map_length_replicate_iff:
  "map length b = replicate n w \<longleftrightarrow> length b = n \<and> list_all (\<lambda>r. length r = w) b"
proof
  assume eq: "map length b = replicate n w"
  then have "length (map length b) = length (replicate n w)" by simp
  then have len: "length b = n" by simp
  have "length r = w" if "r \<in> set b" for r
  proof -
    from that have "length r \<in> set (map length b)" by simp
    then show ?thesis unfolding eq by simp
  qed
  with len show "length b = n \<and> list_all (\<lambda>r. length r = w) b"
    by (simp add: list_all_iff)
next
  assume "length b = n \<and> list_all (\<lambda>r. length r = w) b"
  then have "length b = n" and "map length b = map (\<lambda>_. w) b"
    by (simp_all add: list_all_iff)
  then show "map length b = replicate n w"
    by (simp add: map_replicate_const)
qed

lemma boardInv_cells:
  "boardInv b \<longleftrightarrow> map length b = replicate BOARD_HEIGHT BOARD_WIDTH \<and> cells b \<subseteq> {0..7}"
  unfolding map_length_replicate_iff boardInv_def cells_def
  by (auto simp: list_all_iff)

lemma getTetrominoColorValue_range:
  "1 \<le> getTetrominoColorValue ty \<and> getTetrominoColorValue ty \<le> 7"
proof (cases "colorMap ty")
  case None
  then show ?thesis by (simp add: getTetrominoColorValue_def)
next
  case (Some v)
  then have "(ty, v) \<in> set [(''I'', 1), (''O'', 2), (''T'', 3), (''S'', 4), (''Z'', 5),
                           (''J'', 6), (''L'', 7)]"
    unfolding colorMap_def by (rule map_of_SomeD)
  then have "1 \<le> v \<and> v \<le> 7" by auto
  with Some show ?thesis by (simp add: getTetrominoColorValue_def)
qed

lemma map_update_same: "k < length b \<Longrightarrow> (map f b)[k := f (b ! k)] = map f b"
  by (simp add: list_eq_iff_nth_eq nth_list_update)

lemma cells_update: "cells (b[k := r]) \<subseteq> set r \<union> cells b"
proof -
  have "set (b[k := r]) \<subseteq> insert r (set b)"
    by (rule set_update_subset_insert)
  then show ?thesis
    unfolding cells_def by auto
qed

lemma cells_nth: "k < length b \<Longrightarrow> set (b ! k) \<subseteq> cells b"
  using nth_mem [of k b] unfolding cells_def set_concat by blast

lemma cells_append: "cells (xs @ ys) = cells xs \<union> cells ys"
  by (simp add: cells_def)

lemma cells_zero_rows: "cells (replicate k (replicate w 0)) \<subseteq> {0}"
  by (auto simp: cells_def)

lemma cells_map_nth:
  assumes "list_all (\<lambda>i. i < length b) is"
  shows "cells (map ((!) b) is) \<subseteq> cells b"
proof
  fix c
  assume "c \<in> cells (map ((!) b) is)"
  then obtain i where i: "i \<in> set is" "c \<in> set (b ! i)"
    by (auto simp: cells_def)
  with assms have "i < length b" by (simp add: list_all_iff)
  with i(2) cells_nth [of i b] show "c \<in> cells b" by blast
qed

text \<open>The write of one cell keeps the length of every row and adds at most the value written.\<close>

lemma fixCell_dims: "map length (fixCell b boardX boardY v) = map length b"
  by (simp add: fixCell_def map_update map_update_same nat_less_iff)

lemma fixCell_cells: "cells (fixCell b boardX boardY v) \<subseteq> insert v (cells b)"
proof (cases "boardY \<ge> 0 \<and> boardY < int (length b) \<and> boardX \<ge> 0 \<and> boardX < int (length (b ! 0))")
  case False
  then show ?thesis by (auto simp: fixCell_def)
next
  case True
  then have k: "nat boardY < length b" by (simp add: nat_less_iff)
  have "set ((b ! nat boardY)[nat boardX := v]) \<subseteq> insert v (set (b ! nat boardY))"
    by (rule set_update_subset_insert)
  with cells_nth [OF k] have "set ((b ! nat boardY)[nat boardX := v]) \<subseteq> insert v (cells b)"
    by blast
  with cells_update [of b "nat boardY" "(b ! nat boardY)[nat boardX := v]"]
  have "cells (b[nat boardY := (b ! nat boardY)[nat boardX := v]]) \<subseteq> insert v (cells b)"
    by blast
  with True show ?thesis by (simp add: fixCell_def)
qed

lemma fixCols_dims: "map length (fixCols b cs row col x y ty) = map length b"
  by (induction cs arbitrary: b col) (simp_all add: fixCell_dims)

lemma fixCols_cells:
  "cells (fixCols b cs row col x y ty) \<subseteq> insert (getTetrominoColorValue ty) (cells b)"
proof (induction cs arbitrary: b col)
  case Nil
  show ?case by auto
next
  case (Cons c cs)
  show ?case
  proof (cases "c = 0")
    case True
    with Cons.IH [of b "Suc col"] show ?thesis by simp
  next
    case False
    let ?b1 = "fixCell b (x + int col) (y + int row) (getTetrominoColorValue ty)"
    have "cells (fixCols ?b1 cs row (Suc col) x y ty)
            \<subseteq> insert (getTetrominoColorValue ty) (cells ?b1)"
      by (rule Cons.IH)
    also have "\<dots> \<subseteq> insert (getTetrominoColorValue ty) (cells b)"
      using fixCell_cells [of b "x + int col" "y + int row" "getTetrominoColorValue ty"]
      by blast
    finally show ?thesis using False by simp
  qed
qed

lemma fixRows_dims: "map length (fixRows b rs row x y ty) = map length b"
  by (induction rs arbitrary: b row) (simp_all add: fixCols_dims)

lemma fixRows_cells:
  "cells (fixRows b rs row x y ty) \<subseteq> insert (getTetrominoColorValue ty) (cells b)"
proof (induction rs arbitrary: b row)
  case Nil
  show ?case by auto
next
  case (Cons r rs)
  have "cells (fixRows (fixCols b r row 0 x y ty) rs (Suc row) x y ty)
          \<subseteq> insert (getTetrominoColorValue ty) (cells (fixCols b r row 0 x y ty))"
    by (rule Cons.IH)
  also have "\<dots> \<subseteq> insert (getTetrominoColorValue ty) (cells b)"
    using fixCols_cells [of b r row 0 x y ty] by blast
  finally show ?case by simp
qed

lemma fixRows_boardInv:
  assumes "boardInv b"
  shows "boardInv (fixRows b rs row x y ty)"
proof -
  from assms have "insert (getTetrominoColorValue ty) (cells b) \<subseteq> {0..7}"
    using getTetrominoColorValue_range [of ty] by (simp add: boardInv_cells)
  with fixRows_cells [of b rs row x y ty]
  have "cells (fixRows b rs row x y ty) \<subseteq> {0..7}"
    by (rule subset_trans)
  with assms show ?thesis
    by (simp add: boardInv_cells fixRows_dims)
qed

lemma checkFullLines_in_range: "list_all (\<lambda>i. i < length b) (checkFullLines b)"
  by (simp add: checkFullLines_def list_all_iff)

text \<open>Clearing and compacting keeps the length of every row and adds at most the value 0.\<close>

lemma clear_then_drop_cells:
  assumes rect: "list_all (\<lambda>row. length row = w) b" and inr: "list_all (\<lambda>i. i < length b) L"
  shows "cells (dropLinesDown (fst (clearLines b L)) L) \<subseteq> insert 0 (cells b)"
    and "map length (dropLinesDown (fst (clearLines b L)) L) = map length b"
proof -
  let ?k = "cleared L 0 (length b)"
  let ?kept = "filter (\<lambda>i. i \<notin> set L) [0..<length b]"
  let ?b' = "dropLinesDown (fst (clearLines b L)) L"
  have b': "?b' = replicate ?k (replicate w 0) @ map ((!) b) ?kept"
    by (rule clear_then_drop_eq(2) [OF rect inr])
  have "list_all (\<lambda>i. i < length b) ?kept"
    by (simp add: list_all_iff)
  then have "cells (map ((!) b) ?kept) \<subseteq> cells b"
    by (rule cells_map_nth)
  with cells_zero_rows [of ?k w] show "cells ?b' \<subseteq> insert 0 (cells b)"
    unfolding b' cells_append by blast
  have "?k + length ?kept = length b"
    using sum_length_filter_compl [of "\<lambda>i. i \<in> set L" "[0..<length b]"]
    by (simp add: cleared_def)
  then have len: "length ?b' = length b" by (simp add: b')
  have "length r = w" if "r \<in> set ?b'" for r
    using that rect unfolding b' by (auto simp: list_all_iff)
  moreover have "length r = w" if "r \<in> set b" for r
    using that rect by (auto simp: list_all_iff)
  ultimately show "map length ?b' = map length b"
    using len by (simp add: list_eq_iff_nth_eq)
qed

subsection \<open>The methods that leave the board or the piece as it is\<close>

lemma board_addScore: "board (addScore p n g) = board g"
  by (simp add: addScore_def updateDropInterval_def Let_def split: jsval.splits)

lemma board_validate: "board (validateAndFixGameState g) = board g"
  by (simp add: validateAndFixGameState_def Let_def)

lemma board_spawn: "board (fst (spawnNewTetromino rnd g)) = board g"
  by (simp add: spawnNewTetromino_def setGameOver_def Let_def split: sum.splits bool.splits)

lemma board_shouldDrop: "board (fst (shouldDropTetromino t g)) = board g"
  by (simp add: shouldDropTetromino_def)

lemma board_catchError: "board (catchError r) = board (fst r)"
  by (cases r) (simp add: catchError_def split: sum.splits)

lemma tetromino_addScore: "currentTetromino (addScore p n g) = currentTetromino g"
  by (simp add: addScore_def updateDropInterval_def Let_def split: jsval.splits)

lemma tetromino_validate: "currentTetromino (validateAndFixGameState g) = currentTetromino g"
  by (simp add: validateAndFixGameState_def Let_def)

lemma tetromino_shouldDrop:
  "currentTetromino (fst (shouldDropTetromino t g)) = currentTetromino g"
  by (simp add: shouldDropTetromino_def)

lemma tetromino_processLineClearing:
  "currentTetromino (fst (processLineClearing g)) = currentTetromino g"
  by (simp add: processLineClearing_def Let_def tetromino_addScore
        split: prod.splits option.splits)

lemma tetrominoInv_cong:
  "currentTetromino g' = currentTetromino g \<Longrightarrow> tetrominoInv g' = tetrominoInv g"
  by (simp add: tetrominoInv_def)

lemma tetrominoInv_catchError: "tetrominoInv (catchError r) = tetrominoInv (fst r)"
  by (cases r) (simp add: catchError_def tetrominoInv_def split: sum.splits)

subsection \<open>The type and the color value of a piece\<close>

lemma createTetromino_type: "t_type (createTetromino ty) \<in> set types"
proof (cases ty)
  case None
  then show ?thesis by (simp add: createTetromino_def Let_def types_def)
next
  case (Some t)
  have "t \<in> set types" if "TETROMINOS t \<noteq> None"
    using that unfolding TETROMINOS_def types_def map_of_eq_None_iff by auto
  moreover have "''I'' \<in> set types" by (simp add: types_def)
  ultimately show ?thesis
    using Some by (simp add: createTetromino_def Let_def)
qed

lemma colors_of_types: "map getTetrominoColorValue types = [1, 2, 3, 4, 5, 6, 7]"
  by (simp add: types_def getTetrominoColorValue_def colorMap_def)

subsection \<open>The methods that write the board or the piece\<close>

lemma processLineClearing_board:
  assumes "boardInv (board g)"
  shows "boardInv (board (fst (processLineClearing g)))"
    and "cells (board (fst (processLineClearing g))) \<subseteq> insert 0 (cells (board g))"
proof -
  let ?b = "board g"
  let ?L = "checkFullLines ?b"
  from assms have rect: "list_all (\<lambda>row. length row = BOARD_WIDTH) ?b"
    by (auto simp: boardInv_def list_all_iff)
  note cd = clear_then_drop_eq [OF rect checkFullLines_in_range]
  obtain b1 where b1: "clearLines ?b ?L = (b1, None)"
    using cd(1) by (cases "clearLines ?b ?L") simp
  note cc = clear_then_drop_cells [OF rect checkFullLines_in_range]
  have brd: "board (fst (processLineClearing g))
               = (if ?L = [] then ?b else dropLinesDown (fst (clearLines ?b ?L)) ?L)"
    by (simp add: processLineClearing_def Let_def b1 board_addScore)
  show "cells (board (fst (processLineClearing g))) \<subseteq> insert 0 (cells ?b)"
    using cc(1) unfolding brd by auto
  then have "cells (board (fst (processLineClearing g))) \<subseteq> {0..7}"
    using assms by (auto simp: boardInv_cells)
  moreover have "map length (board (fst (processLineClearing g))) = map length ?b"
    using cc(2) unfolding brd by simp
  ultimately show "boardInv (board (fst (processLineClearing g)))"
    using assms by (simp add: boardInv_cells)
qed

lemma spawn_tetrominoInv:
  assumes "tetrominoInv g"
  shows "tetrominoInv (fst (spawnNewTetromino rnd g))"
  using assms createTetromino_type
  by (simp add: spawnNewTetromino_def setGameOver_def Let_def tetrominoInv_def
        split: sum.splits bool.splits)

lemma spawn_gameInv: "gameInv g \<Longrightarrow> gameInv (fst (spawnNewTetromino rnd g))"
  by (simp add: gameInv_def board_spawn spawn_tetrominoInv)

lemma processLineClearing_gameInv:
  assumes "gameInv g"
  shows "gameInv (fst (processLineClearing g))"
  using assms processLineClearing_board(1) [of g]
    tetrominoInv_cong [OF tetromino_processLineClearing, of g]
  by (simp add: gameInv_def)

lemma fixTetrominoToBoard_gameInv:
  assumes "gameInv g"
  shows "gameInv (fst (fixTetrominoToBoard rnd g))"
proof (cases "currentTetromino g")
  case None
  with assms show ?thesis by (simp add: fixTetrominoToBoard_def)
next
  case (Some t)
  let ?g1 = "g\<lparr>board := fixRows (board g) (t_shape t) 0 (t_x t) (t_y t) (t_type t)\<rparr>"
  have "gameInv ?g1"
    using assms by (simp add: gameInv_def fixRows_boardInv tetrominoInv_def)
  then have inv2: "gameInv (fst (processLineClearing ?g1))"
    by (rule processLineClearing_gameInv)
  obtain g2 r where p: "processLineClearing ?g1 = (g2, r)"
    by (cases "processLineClearing ?g1")
  with inv2 have g2: "gameInv g2" by simp
  show ?thesis
  proof (cases r)
    case (Inl e)
    with g2 show ?thesis by (simp add: fixTetrominoToBoard_def Some p)
  next
    case (Inr u)
    from g2 have "gameInv (g2\<lparr>currentTetromino := None\<rparr>)"
      by (simp add: gameInv_def tetrominoInv_def)
    then have "gameInv (fst (spawnNewTetromino rnd (g2\<lparr>currentTetromino := None\<rparr>)))"
      by (rule spawn_gameInv)
    moreover obtain g3 r3
      where "spawnNewTetromino rnd (g2\<lparr>currentTetromino := None\<rparr>) = (g3, r3)"
      by (cases "spawnNewTetromino rnd (g2\<lparr>currentTetromino := None\<rparr>)")
    ultimately show ?thesis
      using Inr by (simp add: fixTetrominoToBoard_def Some p split: sum.splits)
  qed
qed

lemma dropCurrentTetromino_gameInv:
  assumes "gameInv g"
  shows "gameInv (fst (dropCurrentTetromino rnd g))"
  using assms fixTetrominoToBoard_gameInv [OF assms, of rnd]
  by (auto simp: dropCurrentTetromino_def gameInv_def tetrominoInv_def
        split: option.splits sum.splits bool.splits)

lemma update_gameInv:
  assumes "gameInv g"
  shows "gameInv (update t rnd g)"
proof -
  let ?g1 = "validateAndFixGameState g"
  have g1: "gameInv ?g1"
    using assms by (simp add: gameInv_def board_validate tetrominoInv_def tetromino_validate)
  obtain g2 d where sd: "shouldDropTetromino t ?g1 = (g2, d)"
    by (cases "shouldDropTetromino t ?g1")
  then have "board g2 = board ?g1" "currentTetromino g2 = currentTetromino ?g1"
    using board_shouldDrop [of t ?g1] tetromino_shouldDrop [of t ?g1] by simp_all
  with g1 have g2: "gameInv g2" by (simp add: gameInv_def tetrominoInv_def)
  have c: "gameInv (catchError r) = gameInv (fst r)" for r :: "'a outcome"
    by (simp add: gameInv_def board_catchError tetrominoInv_catchError)
  show ?thesis
    using g1 g2 dropCurrentTetromino_gameInv [OF g2, of rnd] spawn_gameInv [OF g1, of rnd]
    by (simp add: update_def Let_def sd c split: option.splits bool.splits)
qed

lemma createEmptyBoard_boardInv: "boardInv (createEmptyBoard BOARD_WIDTH BOARD_HEIGHT)"
  by (simp add: boardInv_def createEmptyBoard_def list_all_iff)

lemma initial_gameInv: "gameInv initializeGameState"
  by (simp add: gameInv_def tetrominoInv_def initializeGameState_def createEmptyBoard_boardInv)

text \<open>
  Claim C8. A new game satisfies the invariant: its board has 20 rows of 10 cells, every
  cell between 0 and 7, and its piece, when there is one, has a type of the catalog.
  From a state that satisfies the invariant every method of the engine leads to a state
  that satisfies it, whether the method returns or throws. The color values of the seven
  types are 1 to 7; the writes of \<open>fixTetrominoToBoard\<close> for the active piece keep the
  length of every row and add no value but the color value of the piece; clearing and
  compacting in \<open>processLineClearing\<close> adds no value but 0.
\<close>

theorem board_invariant:
  assumes "gameInv g"
  shows "gameInv initializeGameState
     \<and> gameInv (reset g)
     \<and> gameInv (addScore points linesCleared g)
     \<and> gameInv (setGameOver isGameOver g)
     \<and> gameInv (fst (togglePause g))
     \<and> gameInv (updateDropInterval g)
     \<and> gameInv (fst (shouldDropTetromino currentTime g))
     \<and> gameInv (fst (spawnNewTetromino rnd g))
     \<and> gameInv (fst (processLineClearing g))
     \<and> gameInv (fst (fixTetrominoToBoard rnd g))
     \<and> gameInv (fst (dropCurrentTetromino rnd g))
     \<and> gameInv (validateAndFixGameState g)
     \<and> gameInv (update currentTime rnd g)
     \<and> gameInv (fst (render g))
     \<and> map getTetrominoColorValue types = [1, 2, 3, 4, 5, 6, 7]
     \<and> (case currentTetromino g of
           None \<Rightarrow> True
         | Some t \<Rightarrow>
             1 \<le> getTetrominoColorValue (t_type t) \<and> getTetrominoColorValue (t_type t) \<le> 7
             \<and> map length (fixRows (board g) (t_shape t) 0 (t_x t) (t_y t) (t_type t))
                 = map length (board g)
             \<and> cells (fixRows (board g) (t_shape t) 0 (t_x t) (t_y t) (t_type t))
                 \<subseteq> insert (getTetrominoColorValue (t_type t)) (cells (board g)))
     \<and> cells (board (fst (processLineClearing g))) \<subseteq> insert 0 (cells (board g))"
proof -
  from assms have b: "boardInv (board g)" and t: "tetrominoInv g"
    by (simp_all add: gameInv_def)
  have simple: "gameInv (reset g)" "gameInv (addScore points linesCleared g)"
      "gameInv (setGameOver isGameOver g)" "gameInv (fst (togglePause g))"
      "gameInv (updateDropInterval g)" "gameInv (fst (shouldDropTetromino currentTime g))"
      "gameInv (validateAndFixGameState g)" "gameInv (fst (render g))"
    using b t initial_gameInv
    by (simp_all add: gameInv_def tetrominoInv_def reset_def board_addScore tetromino_addScore
          setGameOver_def togglePause_def Let_def updateDropInterval_def board_shouldDrop
          tetromino_shouldDrop board_validate tetromino_validate render_def)
  have stamp: "(case currentTetromino g of
           None \<Rightarrow> True
         | Some t \<Rightarrow>
             1 \<le> getTetrominoColorValue (t_type t) \<and> getTetrominoColorValue (t_type t) \<le> 7
             \<and> map length (fixRows (board g) (t_shape t) 0 (t_x t) (t_y t) (t_type t))
                 = map length (board g)
             \<and> cells (fixRows (board g) (t_shape t) 0 (t_x t) (t_y t) (t_type t))
                 \<subseteq> insert (getTetrominoColorValue (t_type t)) (cells (board g)))"
    using getTetrominoColorValue_range fixRows_dims fixRows_cells
    by (simp split: option.splits)
  show ?thesis
    using simple stamp initial_gameInv colors_of_types
      spawn_gameInv [OF assms, of rnd] processLineClearing_gameInv [OF assms]
      fixTetrominoToBoard_gameInv [OF assms, of rnd]
      dropCurrentTetromino_gameInv [OF assms, of rnd]
      update_gameInv [OF assms, of currentTime rnd] processLineClearing_board(2) [OF b]
    by simp
qed

text \<open>
  A piece I at the bottom of the empty board: the next \<open>update\<close> fixes it in row 19 with
  the color value 1.
\<close>

theorem board_invariant_witness:
  "gameInv (initializeGameState
      \<lparr>currentTetromino := Some (createTetromino (Some ''I'')\<lparr>t_y := 18\<rparr>)\<rparr>)
   \<and> gameInv (update 1000 0 (initializeGameState
      \<lparr>currentTetromino := Some (createTetromino (Some ''I'')\<lparr>t_y := 18\<rparr>)\<rparr>))
   \<and> board (update 1000 0 (initializeGameState
      \<lparr>currentTetromino := Some (createTetromino (Some ''I'')\<lparr>t_y := 18\<rparr>)\<rparr>))
       = replicate 19 (replicate 10 0) @ [[0, 0, 0, 0, 1, 1, 1, 1, 0, 0]]"
proof -
  let ?g = "initializeGameState
              \<lparr>currentTetromino := Some (createTetromino (Some ''I'')\<lparr>t_y := 18\<rparr>)\<rparr>"
  have h: "gameInv ?g"
    using initial_gameInv createTetromino_type [of "Some ''I''"]
    by (simp add: gameInv_def tetrominoInv_def)
  have "board (update 1000 0 ?g)
          = replicate 19 (replicate 10 0) @ [[0, 0, 0, 0, 1, 1, 1, 1, 0, 0]]"
    by code_simp
  then show ?thesis
    using h board_invariant [OF h, where rnd = 0 and currentTime = 1000] by simp
qed

text \<open>Every state a game reaches satisfies the invariant.\<close>

lemma exec_gameInv:
  assumes "gameInv g"
  shows "gameInv (exec op g)"
proof (cases op)
  case (OpUpdate currentTime rnd)
  with assms show ?thesis by (simp add: update_gameInv)
next
  case (OpSpawn rnd)
  with assms show ?thesis by (simp add: spawn_gameInv)
next
  case OpReset
  then show ?thesis by (simp add: reset_def initial_gameInv)
next
  case OpRender
  with assms show ?thesis by (simp add: render_def)
next
  case OpTogglePause
  with assms show ?thesis
    by (simp add: togglePause_def Let_def gameInv_def tetrominoInv_def)
qed

lemma reachable_gameInv: "reachable g \<Longrightarrow> gameInv g"
  by (induction rule: reachable.induct) (simp_all add: initial_gameInv exec_gameInv)

section \<open>After the game is over\<close>

lemma reachable_fold:
  "reachable g \<Longrightarrow> list_all validOp ops \<Longrightarrow> reachable (fold exec ops g)"
  by (induction ops arbitrary: g) (simp_all add: reachable.step)

lemma gameOverTrace_valid: "list_all validOp gameOverTrace"
  by code_simp

lemma gameOverTrace_run: "fold exec gameOverTrace initializeGameState = gameOverState"
  by code_simp

lemma gameOverState_reachable: "reachable gameOverState"
  using reachable_fold [OF reachable.init gameOverTrace_valid] by (simp add: gameOverTrace_run)

text \<open>
  A game that is over and takes a new piece. The stack under the spawn position has
  grown to row 1 in column 4 only; the piece J drawn last collides there, which sets
  \<open>gameOver\<close>. A later call of \<open>spawnNewTetromino\<close> that draws the piece Z finds its four
  cells free and installs it, with \<open>gameOver\<close> still set.
\<close>

theorem gameOver_spawn_counterexample:
  "reachable gameOverState \<and> gameOver gameOverState \<and> currentTetromino gameOverState = None
   \<and> currentTetromino (fst (spawnNewTetromino 4 gameOverState))
       = Some \<lparr>t_type = ''Z'', t_shape = [[1, 1, 0], [0, 1, 1], [0, 0, 0]], t_color = ''red'',
               t_x = 4, t_y = 0, t_rotation = 0\<rparr>"
proof -
  have "currentTetromino (fst (spawnNewTetromino 4 gameOverState))
       = Some \<lparr>t_type = ''Z'', t_shape = [[1, 1, 0], [0, 1, 1], [0, 0, 0]], t_color = ''red'',
               t_x = 4, t_y = 0, t_rotation = 0\<rparr>"
    by code_simp
  then show ?thesis
    using gameOverState_reachable by (simp add: gameOverState_def)
qed

text \<open>
  Claim C5, without \<open>spawnNewTetromino\<close> among the methods that leave the piece alone.
  In every state with \<open>gameOver\<close> set, \<open>update\<close> and \<open>togglePause\<close> change neither the
  board nor \<open>currentTetromino\<close>, and \<open>render\<close> changes no field. \<open>spawnNewTetromino\<close>
  does not look at \<open>gameOver\<close>: it leaves the board as it is and \<open>gameOver\<close> set, and it
  installs the piece it draws when the collision test at the spawn position says no
  collision; in every other case the state stays as it is.
\<close>

theorem gameOver_frame:
  assumes "gameOver g"
  shows "board (update currentTime rnd g) = board g
     \<and> currentTetromino (update currentTime rnd g) = currentTetromino g
     \<and> fst (render g) = g
     \<and> board (fst (togglePause g)) = board g
     \<and> currentTetromino (fst (togglePause g)) = currentTetromino g
     \<and> board (fst (spawnNewTetromino rnd g)) = board g
     \<and> gameOver (fst (spawnNewTetromino rnd g))
     \<and> fst (spawnNewTetromino rnd g)
         = (let newTetromino =
                  createTetromino (if rnd < length types then Some (types ! rnd) else None)
            in if checkCollision (board g) (Some (t_shape newTetromino)) 4 0 0 0 = Inr False
               then g\<lparr>currentTetromino := Some newTetromino\<rparr>
               else g)"
proof -
  have "gameOver (validateAndFixGameState g)"
      "board (validateAndFixGameState g) = board g"
      "currentTetromino (validateAndFixGameState g) = currentTetromino g"
    using assms by (simp_all add: validateAndFixGameState_def Let_def)
  then have upd: "board (update currentTime rnd g) = board g"
      "currentTetromino (update currentTime rnd g) = currentTetromino g"
    by (simp_all add: update_def Let_def)
  have over: "g\<lparr>gameOver := True\<rparr> = g"
    using assms by simp
  have sp: "fst (spawnNewTetromino rnd g)
         = (let newTetromino =
                  createTetromino (if rnd < length types then Some (types ! rnd) else None)
            in if checkCollision (board g) (Some (t_shape newTetromino)) 4 0 0 0 = Inr False
               then g\<lparr>currentTetromino := Some newTetromino\<rparr>
               else g)"
    by (simp add: spawnNewTetromino_def Let_def setGameOver_def over createTetromino_position
          split: sum.splits bool.splits)
  have "gameOver (fst (spawnNewTetromino rnd g))"
    unfolding sp using assms by (simp add: Let_def)
  with upd sp show ?thesis
    by (simp add: render_def togglePause_def Let_def board_spawn)
qed

text \<open>
  A new game ended by \<open>setGameOver\<close>: \<open>update\<close> changes nothing, and \<open>spawnNewTetromino\<close>
  puts the piece I on the empty board.
\<close>

theorem gameOver_frame_witness:
  "gameOver (setGameOver True initializeGameState)
   \<and> update 5000 0 (setGameOver True initializeGameState) = setGameOver True initializeGameState
   \<and> fst (spawnNewTetromino 0 (setGameOver True initializeGameState))
       = (setGameOver True initializeGameState)
           \<lparr>currentTetromino := Some (createTetromino (Some ''I''))\<rparr>"
proof -
  have h: "gameOver (setGameOver True initializeGameState)"
    by (simp add: setGameOver_def)
  have "update 5000 0 (setGameOver True initializeGameState)
          = setGameOver True initializeGameState"
    by code_simp
  moreover have "checkCollision (board (setGameOver True initializeGameState))
      (Some (t_shape (createTetromino (Some ''I'')))) 4 0 0 0 = Inr False"
    by code_simp
  ultimately show ?thesis
    using h gameOver_frame [OF h, of 5000 0]
    by (simp add: types_def Let_def)
qed

end
